theory Spec2Isabelle
  imports Main "HOL-Library.Word"
begin

section \<open>The order cell (struct Order)\<close>

text \<open>
  \<^verbatim>\<open>Source.cpp\<close> declares \<^verbatim>\<open>template <typename K, typename V> struct Order\<close> with the
  fields \<^verbatim>\<open>std::atomic<V> lotSize\<close> and \<^verbatim>\<open>int price\<close>. The program instantiates
  \<^verbatim>\<open>V = int\<close>, so both fields are 32-bit two's-complement integers; \<open>sint\<close> reads
  their value (\<^verbatim>\<open>int\<close> is taken to be 32 bits wide). \<^verbatim>\<open>std::atomic<int>::fetch_add\<close>
  is defined to wrap around, which is what \<open>+\<close> on \<open>32 word\<close> does. The symbol type
  \<^verbatim>\<open>K\<close> stays a type variable.
\<close>

record Order =
  lotSize :: "32 word"
  price :: "32 word"

text \<open>\<^verbatim>\<open>Order() : lotSize(0), price(0) {}\<close>\<close>

definition Order_default :: Order where
  "Order_default = \<lparr>lotSize = 0, price = 0\<rparr>"

text \<open>\<^verbatim>\<open>Order(V lotSize, int price)\<close>\<close>

definition Order_new :: "32 word \<Rightarrow> 32 word \<Rightarrow> Order" where
  "Order_new l p = \<lparr>lotSize = l, price = p\<rparr>"

text \<open>
  \<^verbatim>\<open>Order& operator=(Order&& other)\<close>: the target takes the price and the loaded
  lot size of \<open>other\<close>. The guard \<^verbatim>\<open>this != &other\<close> compares addresses; its only
  caller assigns the by-reference parameter of \<^verbatim>\<open>insert\<close> to a map slot, two different
  objects, so the guarded branch is the one that runs.
\<close>

definition move_assign :: "Order \<Rightarrow> Order \<Rightarrow> Order" where
  "move_assign this other = this\<lparr>price := price other, lotSize := lotSize other\<rparr>"

text \<open>\<^verbatim>\<open>lotSize.fetch_add(v, std::memory_order_relaxed)\<close> on a cell.\<close>

definition fetch_add :: "Order \<Rightarrow> 32 word \<Rightarrow> Order" where
  "fetch_add cell v = cell\<lparr>lotSize := lotSize cell + v\<rparr>"

section \<open>The two-level map (class ConcurrentHashMap)\<close>

text \<open>
  \<^verbatim>\<open>std::unordered_map<K, std::unordered_map<int, Order<K, V>>> map_\<close>. Every public
  operation takes \<^verbatim>\<open>mutex_\<close> on entry and holds it until it returns (\<^verbatim>\<open>insert\<close> and
  \<^verbatim>\<open>remove\<close> exclusively), so an operation is one step from a map to a map.
\<close>

type_synonym 'k chm = "'k \<rightharpoonup> (32 word \<rightharpoonup> Order)"

text \<open>
  \<^verbatim>\<open>m[k]\<close> of \<^verbatim>\<open>std::unordered_map\<close>: the value stored under \<open>k\<close>, or a value-initialised
  one that the container creates under \<open>k\<close>. The creation becomes visible when the caller
  writes the slot back with \<open>m(k \<mapsto> _)\<close>.
\<close>

definition subscript :: "('a \<rightharpoonup> 'b) \<Rightarrow> 'a \<Rightarrow> 'b \<Rightarrow> 'b" where
  "subscript m k dflt = (case m k of None \<Rightarrow> dflt | Some v \<Rightarrow> v)"

text \<open>
  \<^verbatim>\<open>
  void insert(const K& symbol, Order<K, V>&& order) {
      std::unique_lock<std::shared_mutex> lock(mutex_);
      auto& orders = map_[symbol];
      auto it = orders.find(order.price);
      if (it != orders.end()) {
          it->second.lotSize.fetch_add(order.lotSize.load(), std::memory_order_relaxed);
      } else {
          orders[order.price] = std::move(order);
      }
  }
  \<close>
\<close>

definition insert_chm :: "'k \<Rightarrow> Order \<Rightarrow> 'k chm \<Rightarrow> 'k chm" where
  "insert_chm symbol ord m =
     (let orders = subscript m symbol Map.empty in
      case orders (price ord) of
        Some cell \<Rightarrow>
          m(symbol \<mapsto> orders(price ord \<mapsto> fetch_add cell (lotSize ord)))
      | None \<Rightarrow>
          m(symbol \<mapsto> orders(price ord \<mapsto>
              move_assign (subscript orders (price ord) Order_default) ord)))"

text \<open>\<^verbatim>\<open>void remove(const K& symbol) { ...; map_.erase(symbol); }\<close>\<close>

definition remove_chm :: "'k \<Rightarrow> 'k chm \<Rightarrow> 'k chm" where
  "remove_chm symbol m = m(symbol := None)"

text \<open>
  \<^verbatim>\<open>display\<close> walks both levels and prints, for every symbol, one line with a
  \<^verbatim>\<open>{lotSize: .., price: ..}\<close> entry per inner element: the loaded lot size of
  the cell and the key of the element (\<^verbatim>\<open>order.first\<close>). The iteration order of
  \<^verbatim>\<open>std::unordered_map\<close> is unspecified, so the output is the set of lines, each a
  symbol with its set of (price key, lot size) entries.
\<close>

definition display_line :: "(32 word \<rightharpoonup> Order) \<Rightarrow> (32 word \<times> 32 word) set" where
  "display_line orders = {(p, lotSize cell) | p cell. orders p = Some cell}"

definition display_chm :: "'k chm \<Rightarrow> ('k \<times> (32 word \<times> 32 word) set) set" where
  "display_chm m = {(symbol, display_line orders) | symbol orders. m symbol = Some orders}"

section \<open>Sequences of operations\<close>

datatype 'k op = Insert 'k Order | Remove 'k

fun apply_op :: "'k op \<Rightarrow> 'k chm \<Rightarrow> 'k chm" where
  "apply_op (Insert symbol ord) m = insert_chm symbol ord m"
| "apply_op (Remove symbol) m = remove_chm symbol m"

text \<open>The map after the operations \<open>ops\<close>, first to last, started on \<open>m\<close>.\<close>

definition run :: "'k op list \<Rightarrow> 'k chm \<Rightarrow> 'k chm" where
  "run ops m = fold apply_op ops m"

text \<open>The lot size stored for a (symbol, price) pair, if the pair has a cell.\<close>

definition quantity_at :: "'k chm \<Rightarrow> 'k \<Rightarrow> 32 word \<Rightarrow> 32 word option" where
  "quantity_at m symbol p =
     (case m symbol of None \<Rightarrow> None | Some orders \<Rightarrow> map_option lotSize (orders p))"

text \<open>The lot sizes that the operations \<open>ops\<close> insert at the pair, in their order.\<close>

fun inserted :: "'k \<Rightarrow> 32 word \<Rightarrow> 'k op list \<Rightarrow> 32 word list" where
  "inserted symbol p [] = []"
| "inserted symbol p (Insert s ord # ops) =
     (if s = symbol \<and> price ord = p then lotSize ord # inserted symbol p ops
      else inserted symbol p ops)"
| "inserted symbol p (Remove s # ops) = inserted symbol p ops"

text \<open>The symbols that the operations \<open>ops\<close> insert into, in their order.\<close>

fun insert_symbols :: "'k op list \<Rightarrow> 'k list" where
  "insert_symbols [] = []"
| "insert_symbols (Insert s ord # ops) = s # insert_symbols ops"
| "insert_symbols (Remove s # ops) = insert_symbols ops"

text \<open>The cells of a map: every (symbol, price key, cell) that a lookup on both levels finds.\<close>

definition cells :: "'k chm \<Rightarrow> ('k \<times> 32 word \<times> Order) set" where
  "cells m = {(symbol, p, cell) | symbol p cell orders. m symbol = Some orders \<and> orders p = Some cell}"

text \<open>Every cell records the price under which it is stored.\<close>

definition key_consistent :: "'k chm \<Rightarrow> bool" where
  "key_consistent m \<longleftrightarrow> (\<forall>symbol p cell. (symbol, p, cell) \<in> cells m \<longrightarrow> price cell = p)"

text \<open>No symbol is present with an empty inner mapping.\<close>

definition no_empty_entry :: "'k chm \<Rightarrow> bool" where
  "no_empty_entry m \<longleftrightarrow> (\<forall>symbol. m symbol \<noteq> Some Map.empty)"

section \<open>Concurrent inserts (testConcurrentAccess)\<close>

text \<open>
  \<^verbatim>\<open>
  for (int i = 0; i < numThreads; ++i) {
      threads.push_back(std::thread([&, i]() {
          insert(symbol, Order<K, V>(i + 1, 2));
      }));
  }
  for (auto& t : threads) { t.join(); }
  \<close>
  Thread \<open>i\<close> makes one call of \<^verbatim>\<open>insert\<close>, with the quantity \<open>i + 1\<close> (an
  \<^verbatim>\<open>int\<close>) and the price 2. The source fixes \<^verbatim>\<open>numThreads = 10\<close>, the price 2 and
  the symbol; here the number \<open>n\<close> of threads, the price \<open>p\<close> and the symbol are
  parameters, so that the test is the instance \<open>n = 10\<close>, \<open>p = 2\<close>. \<open>thread_insert\<close> is
  the call of thread \<open>i\<close> as one step on the map, \<open>testConcurrentAccess_run\<close> makes the
  calls of a list of threads one after the other, and \<open>schedule n sched\<close> says that
  \<open>sched\<close> lists each of the threads \<open>0, \<dots>, n - 1\<close> exactly once.
\<close>

definition thread_insert :: "'k \<Rightarrow> 32 word \<Rightarrow> nat \<Rightarrow> 'k chm \<Rightarrow> 'k chm" where
  "thread_insert symbol p i m = insert_chm symbol (Order_new (of_nat i + 1) p) m"

definition testConcurrentAccess_run :: "'k \<Rightarrow> 32 word \<Rightarrow> nat list \<Rightarrow> 'k chm \<Rightarrow> 'k chm" where
  "testConcurrentAccess_run symbol p sched m = fold (thread_insert symbol p) sched m"

definition schedule :: "nat \<Rightarrow> nat list \<Rightarrow> bool" where
  "schedule n sched \<longleftrightarrow> distinct sched \<and> set sched = {0..<n}"

text \<open>
  The threads of the test as a transition system. A thread is at one of five places of
  its call:
  \<^item> \<open>Waiting\<close>: before \<^verbatim>\<open>std::unique_lock<std::shared_mutex> lock(mutex_)\<close>, which
    it passes only while no thread owns the mutex;
  \<^item> \<open>Searching\<close>: owning the mutex, before \<^verbatim>\<open>auto& orders = map_[symbol]\<close> and
    \<^verbatim>\<open>orders.find(order.price)\<close>;
  \<^item> \<open>Merging\<close>: the price was found, before the \<^verbatim>\<open>fetch_add\<close> on the element that the
    iterator designates;
  \<^item> \<open>Creating\<close>: the price was not found, before \<^verbatim>\<open>orders[order.price] = std::move(order)\<close>;
  \<^item> \<open>Returned\<close>: after the return, which releases the mutex.
  The state of the system is the map, the owner of the mutex and the place of every
  thread; \<open>thread_step symbol n i\<close> is the next step of thread \<open>i\<close> out of \<open>n\<close>, and
  \<open>None\<close> when that thread cannot move: it does not exist, has returned, or waits for a
  mutex that another thread owns.
\<close>

datatype pc = Waiting | Searching | Merging | Creating | Returned

record 'k sys =
  shared :: "'k chm"
  mutex :: "nat option"
  pcs :: "nat \<Rightarrow> pc"

definition init_sys :: "'k sys" where
  "init_sys = \<lparr>shared = Map.empty, mutex = None, pcs = (\<lambda>i. Waiting)\<rparr>"

definition thread_step :: "'k \<Rightarrow> 32 word \<Rightarrow> nat \<Rightarrow> nat \<Rightarrow> 'k sys \<Rightarrow> 'k sys option" where
  "thread_step symbol p n i s =
     (if n \<le> i then None
      else
        let ord = Order_new (of_nat i + 1) p;
            orders = subscript (shared s) symbol Map.empty
        in case pcs s i of
          Waiting \<Rightarrow>
            (if mutex s = None
             then Some (s\<lparr>mutex := Some i, pcs := (pcs s)(i := Searching)\<rparr>)
             else None)
        | Searching \<Rightarrow>
            Some (s\<lparr>shared := (shared s)(symbol \<mapsto> orders),
                    pcs := (pcs s)(i := (case orders (price ord) of
                                           Some cell \<Rightarrow> Merging | None \<Rightarrow> Creating))\<rparr>)
        | Merging \<Rightarrow>
            Some (s\<lparr>shared := (shared s)(symbol \<mapsto> orders(price ord :=
                        map_option (\<lambda>cell. fetch_add cell (lotSize ord)) (orders (price ord)))),
                    mutex := None, pcs := (pcs s)(i := Returned)\<rparr>)
        | Creating \<Rightarrow>
            Some (s\<lparr>shared := (shared s)(symbol \<mapsto> orders(price ord \<mapsto>
                        move_assign (subscript orders (price ord) Order_default) ord)),
                    mutex := None, pcs := (pcs s)(i := Returned)\<rparr>)
        | Returned \<Rightarrow> None)"

fun exec :: "'k \<Rightarrow> 32 word \<Rightarrow> nat \<Rightarrow> nat list \<Rightarrow> 'k sys \<Rightarrow> 'k sys option" where
  "exec symbol p n [] s = Some s"
| "exec symbol p n (i # trace) s =
     (case thread_step symbol p n i s of
        None \<Rightarrow> None
      | Some s' \<Rightarrow> exec symbol p n trace s')"

definition joined :: "nat \<Rightarrow> 'k sys \<Rightarrow> bool" where
  "joined n s \<longleftrightarrow> list_all (\<lambda>i. pcs s i = Returned) [0..<n]"

text \<open>
  \<open>exec\<close> runs a trace, the list of the threads that move, one step each; \<open>joined\<close>
  holds when every thread has returned, which is when the joins of the test are over.
  \<open>testConcurrentAccess_quantity\<close> is what the test then reads with
  \<^verbatim>\<open>map_.at(symbol).at(2).lotSize.load()\<close> (with \<open>p\<close> for the 2), and \<open>serial_trace\<close> is the trace in which the
  threads run their calls one after the other in the order of a schedule.
\<close>

definition testConcurrentAccess_quantity ::
  "'k \<Rightarrow> 32 word \<Rightarrow> nat \<Rightarrow> nat list \<Rightarrow> int option" where
  "testConcurrentAccess_quantity symbol p n trace =
     (case exec symbol p n trace init_sys of
        None \<Rightarrow> None
      | Some s \<Rightarrow> if joined n s then map_option sint (quantity_at (shared s) symbol p) else None)"

definition serial_trace :: "nat list \<Rightarrow> nat list" where
  "serial_trace sched = concat (map (\<lambda>i. [i, i, i]) sched)"

text \<open>Steps that thread \<open>i\<close> still has to make, and their sum over all threads.\<close>

fun remaining :: "pc \<Rightarrow> nat" where
  "remaining Waiting = 3"
| "remaining Searching = 2"
| "remaining Merging = 1"
| "remaining Creating = 1"
| "remaining Returned = 0"

definition work :: "nat \<Rightarrow> 'k sys \<Rightarrow> nat" where
  "work n s = (\<Sum>i<n. remaining (pcs s i))"

text \<open>
  The invariant of the executions: only the owner of the mutex is inside a call, and
  the map is the result of the calls of the returned threads in some order, plus, while
  the owner is past its search, the slot for the symbol that \<^verbatim>\<open>map_[symbol]\<close> ensures.
\<close>

definition quiet :: "nat \<Rightarrow> nat \<Rightarrow> 'k sys \<Rightarrow> bool" where
  "quiet n j s \<longleftrightarrow> (\<forall>i<n. i \<noteq> j \<longrightarrow> pcs s i = Waiting \<or> pcs s i = Returned)"

definition lock_inv :: "'k \<Rightarrow> 32 word \<Rightarrow> nat \<Rightarrow> 'k sys \<Rightarrow> bool" where
  "lock_inv symbol p n s \<longleftrightarrow>
     (\<exists>sched. distinct sched \<and> set sched = {i. i < n \<and> pcs s i = Returned} \<and>
        (let base = testConcurrentAccess_run symbol p sched Map.empty;
             orders = subscript base symbol Map.empty
         in case mutex s of
              None \<Rightarrow> shared s = base \<and> quiet n n s
            | Some j \<Rightarrow> j < n \<and> quiet n j s \<and>
                (case pcs s j of
                   Searching \<Rightarrow> shared s = base
                 | Merging \<Rightarrow> shared s = base(symbol \<mapsto> orders) \<and> orders p \<noteq> None
                 | Creating \<Rightarrow> shared s = base(symbol \<mapsto> orders) \<and> orders p = None
                 | _ \<Rightarrow> False)))"

section \<open>Calls and their outcomes\<close>

text \<open>
  What a caller of a member function can observe: the call returns a value and leaves a
  map, or it fails and leaves the map as it is at the point of failure. The failures
  that the code of \<^verbatim>\<open>Source.cpp\<close> can raise are the \<^verbatim>\<open>std::out_of_range\<close> of
  \<^verbatim>\<open>std::unordered_map::at\<close> and a failed \<^verbatim>\<open>assert\<close>; both occur in the test functions
  only. Allocation is taken to succeed.
\<close>

datatype failure = OutOfRange | AssertionFailed

type_synonym ('a, 'k) outcome = "(failure \<times> 'k chm) + ('a \<times> 'k chm)"

text \<open>\<^verbatim>\<open>m.at(k)\<close>: the value under \<open>k\<close>, or \<^verbatim>\<open>std::out_of_range\<close>.\<close>

definition um_at :: "('a \<rightharpoonup> 'b) \<Rightarrow> 'a \<Rightarrow> failure + 'b" where
  "um_at m k = (case m k of None \<Rightarrow> Inl OutOfRange | Some v \<Rightarrow> Inr v)"

text \<open>
  \<^verbatim>\<open>insert\<close> statement by statement. After \<^verbatim>\<open>map_[symbol]\<close> the map is \<open>m1\<close>, in which
  the symbol has an entry (an empty one when it had none); the last statement works on
  \<open>m1\<close>. The function is \<^verbatim>\<open>void\<close> and contains no \<^verbatim>\<open>throw\<close>, no \<^verbatim>\<open>at\<close> and no
  \<^verbatim>\<open>assert\<close>: both of its paths end in a return.
\<close>

definition insert_call :: "'k \<Rightarrow> Order \<Rightarrow> 'k chm \<Rightarrow> (unit, 'k) outcome" where
  "insert_call symbol ord m =
     (let orders = subscript m symbol Map.empty;
          m1 = m(symbol \<mapsto> orders)
      in case orders (price ord) of
           Some cell \<Rightarrow>
             Inr ((), m1(symbol \<mapsto> orders(price ord \<mapsto> fetch_add cell (lotSize ord))))
         | None \<Rightarrow>
             Inr ((), m1(symbol \<mapsto> orders(price ord \<mapsto>
                 move_assign (subscript orders (price ord) Order_default) ord))))"

text \<open>
  \<^verbatim>\<open>remove\<close>: \<^verbatim>\<open>map_.erase(symbol)\<close> erases the element if there is one and returns how
  many it erased, which \<^verbatim>\<open>remove\<close> discards.
\<close>

definition remove_call :: "'k \<Rightarrow> 'k chm \<Rightarrow> (unit, 'k) outcome" where
  "remove_call symbol m = Inr ((), m(symbol := None))"

text \<open>\<^verbatim>\<open>display\<close> is \<^verbatim>\<open>const\<close>: it returns what it printed and leaves the map.\<close>

definition display_call :: "'k chm \<Rightarrow> (('k \<times> (32 word \<times> 32 word) set) set, 'k) outcome" where
  "display_call m = Inr (display_chm m, m)"

text \<open>
  \<^verbatim>\<open>
  bool testRemove() {
      insert("TEST", Order<K, V>(10, 2));
      remove("TEST");
      assert(map_.find("TEST") == map_.end());
      return true;
  }
  \<close>
\<close>

definition testRemove :: "string chm \<Rightarrow> (bool, string) outcome" where
  "testRemove m =
     (case insert_call ''TEST'' (Order_new 10 2) m of
        Inl f \<Rightarrow> Inl f
      | Inr (u, m1) \<Rightarrow>
          (case remove_call ''TEST'' m1 of
             Inl f \<Rightarrow> Inl f
           | Inr (u', m2) \<Rightarrow>
               if m2 ''TEST'' = None then Inr (True, m2) else Inl (AssertionFailed, m2)))"

section \<open>Basic facts about insert and remove\<close>

lemma insert_chm_same:
  "insert_chm symbol ord m symbol =
     Some ((subscript m symbol Map.empty)(price ord \<mapsto>
        (case subscript m symbol Map.empty (price ord) of
           None \<Rightarrow> \<lparr>lotSize = lotSize ord, price = price ord\<rparr>
         | Some cell \<Rightarrow> cell\<lparr>lotSize := lotSize cell + lotSize ord\<rparr>)))"
  by (simp add: insert_chm_def Let_def subscript_def move_assign_def fetch_add_def
      Order_default_def split: option.splits)

lemma insert_chm_other: "s \<noteq> symbol \<Longrightarrow> insert_chm symbol ord m s = m s"
  by (simp add: insert_chm_def Let_def split: option.splits)

lemma quantity_at_insert:
  "quantity_at (insert_chm s' ord m) s p =
     (if s' = s \<and> price ord = p
      then Some (case quantity_at m s p of None \<Rightarrow> lotSize ord | Some q \<Rightarrow> q + lotSize ord)
      else quantity_at m s p)"
proof (cases "s' = s")
  case True
  then show ?thesis
    by (auto simp: quantity_at_def insert_chm_same subscript_def split: option.splits)
next
  case False
  then show ?thesis
    by (simp add: quantity_at_def insert_chm_other)
qed

lemma quantity_at_remove:
  "quantity_at (remove_chm s' m) s p = (if s' = s then None else quantity_at m s p)"
  by (simp add: quantity_at_def remove_chm_def)

lemma quantity_at_run:
  "Remove s \<notin> set ops \<Longrightarrow>
   quantity_at (run ops m) s p =
     (case quantity_at m s p of
        None \<Rightarrow> (if inserted s p ops = [] then None else Some (sum_list (inserted s p ops)))
      | Some q \<Rightarrow> Some (q + sum_list (inserted s p ops)))"
proof (induction ops arbitrary: m)
  case Nil
  then show ?case by (simp add: run_def split: option.splits)
next
  case (Cons a ops)
  then show ?case
    by (cases a) (auto simp: run_def quantity_at_insert quantity_at_remove add.assoc split: option.splits)
qed

lemma quantity_at_empty: "quantity_at Map.empty s p = None"
  by (simp add: quantity_at_def)

lemma sint_sum_list:
  "sint (sum_list (qs :: 32 word list)) = signed_take_bit 31 (sum_list (map sint qs))"
proof (induction qs)
  case Nil
  show ?case by simp
next
  case (Cons q qs)
  let ?S = "sum_list (map sint qs)"
  have "sint (q + sum_list qs) = signed_take_bit 31 (sint q + signed_take_bit 31 ?S)"
    by (simp add: sint_word_add Cons.IH)
  also have "\<dots> = signed_take_bit 31 (signed_take_bit 31 (sint q) + signed_take_bit 31 (signed_take_bit 31 ?S))"
    by (simp only: signed_take_bit_add)
  also have "\<dots> = signed_take_bit 31 (signed_take_bit 31 (sint q) + signed_take_bit 31 ?S)"
    by simp
  also have "\<dots> = signed_take_bit 31 (sint q + ?S)"
    by (rule signed_take_bit_add)
  finally show ?case by simp
qed

lemma display_chm_iff:
  "(s, l) \<in> display_chm m \<longleftrightarrow> (\<exists>orders. m s = Some orders \<and> l = display_line orders)"
  by (auto simp: display_chm_def)

lemma display_line_empty: "display_line Map.empty = {}"
  by (simp add: display_line_def)

lemma display_line_fresh:
  "orders p = None \<Longrightarrow>
   display_line (orders(p \<mapsto> cell)) = insert (p, lotSize cell) (display_line orders)"
  by (auto simp: display_line_def split: if_splits)

section \<open>Removal\<close>

text \<open>
  Claim C4. For every map and every symbol, \<open>remove\<close> erases the symbol's whole inner
  price mapping: afterwards the symbol has no entry, no cell at any price and no line in
  the enumeration. An insert that follows creates the symbol's entry anew with the one
  cell of that insert, exactly as an insert into an empty map does, so its quantity
  starts from zero.
\<close>

theorem remove_erases_symbol:
  "remove_chm symbol m symbol = None \<and>
   quantity_at (remove_chm symbol m) symbol p = None \<and>
   (symbol, l) \<notin> display_chm (remove_chm symbol m) \<and>
   insert_chm symbol ord (remove_chm symbol m) symbol =
     Some [price ord \<mapsto> \<lparr>lotSize = lotSize ord, price = price ord\<rparr>] \<and>
   insert_chm symbol ord (remove_chm symbol m) symbol = insert_chm symbol ord Map.empty symbol \<and>
   quantity_at (insert_chm symbol ord (remove_chm symbol m)) symbol (price ord) =
     Some (0 + lotSize ord)"
  by (simp add: remove_chm_def quantity_at_def display_chm_iff insert_chm_same subscript_def)

section \<open>Frame properties of insert\<close>

text \<open>
  Claim C6. When the symbol is present and the order's price has no cell under it,
  \<open>insert\<close> adds exactly one cell, at that price and with the order's quantity: the
  price keys afterwards are the old ones and the new price, and the cell under every
  other price is the one that was there before.
\<close>

theorem insert_new_price:
  assumes "m symbol = Some orders" and "orders (price ord) = None"
  shows "\<exists>orders'. insert_chm symbol ord m symbol = Some orders' \<and>
           orders' (price ord) = Some \<lparr>lotSize = lotSize ord, price = price ord\<rparr> \<and>
           dom orders' = insert (price ord) (dom orders) \<and> price ord \<notin> dom orders \<and>
           (\<forall>p. p \<noteq> price ord \<longrightarrow> orders' p = orders p) \<and>
           display_line orders' = insert (price ord, lotSize ord) (display_line orders)"
  using assms by (auto simp: insert_chm_same subscript_def display_line_fresh)

theorem insert_new_price_witness:
  "[''TEST'' \<mapsto> [2 \<mapsto> Order_new 30 2]] ''TEST'' = Some [2 \<mapsto> Order_new 30 2] \<and>
   [2 \<mapsto> Order_new 30 2] (price (Order_new 5 3)) = None \<and>
   (\<exists>orders'. insert_chm ''TEST'' (Order_new 5 3) [''TEST'' \<mapsto> [2 \<mapsto> Order_new 30 2]] ''TEST'' = Some orders' \<and>
       orders' 3 = Some \<lparr>lotSize = 5, price = 3\<rparr> \<and> orders' 2 = Some \<lparr>lotSize = 30, price = 2\<rparr> \<and>
       dom orders' = {2, 3})"
  using insert_new_price [of "[''TEST'' \<mapsto> [2 \<mapsto> Order_new 30 2]]" "''TEST''" "[2 \<mapsto> Order_new 30 2]" "Order_new 5 3"]
  by (auto simp: Order_new_def)

text \<open>
  Claim C7. An insert into symbol A leaves the entry of every other symbol B as it was:
  its presence, its inner mapping (price keys and cells), the quantity at each price and
  its line in the enumeration.
\<close>

theorem insert_other_symbol:
  assumes "symbolA \<noteq> symbolB"
  shows "insert_chm symbolA ord m symbolB = m symbolB \<and>
         quantity_at (insert_chm symbolA ord m) symbolB p = quantity_at m symbolB p \<and>
         ((symbolB, l) \<in> display_chm (insert_chm symbolA ord m) \<longleftrightarrow> (symbolB, l) \<in> display_chm m)"
  using assms by (simp add: insert_chm_other quantity_at_def display_chm_iff)

theorem insert_other_symbol_witness:
  "''A'' \<noteq> ''B'' \<and>
   insert_chm ''A'' (Order_new 5 3) [''B'' \<mapsto> [2 \<mapsto> Order_new 10 2]] ''B'' = Some [2 \<mapsto> Order_new 10 2] \<and>
   quantity_at (insert_chm ''A'' (Order_new 5 3) [''B'' \<mapsto> [2 \<mapsto> Order_new 10 2]]) ''B'' 2 = Some 10"
  using insert_other_symbol [of "''A''" "''B''" "Order_new 5 3" "[''B'' \<mapsto> [2 \<mapsto> Order_new 10 2]]" 2]
  by (simp add: quantity_at_def Order_new_def)

text \<open>
  Claim C10. An insert of quantity 0 at a pair that has no cell creates the cell (and the
  symbol's entry when it is missing) with quantity 0, and the enumeration shows it; at a
  pair that has a cell it leaves the quantity, and the whole map, unchanged.
\<close>

theorem insert_zero_quantity:
  assumes "lotSize ord = 0"
  shows "(quantity_at m symbol (price ord) = None \<longrightarrow>
           (\<exists>orders. insert_chm symbol ord m symbol = Some orders \<and>
              orders (price ord) = Some \<lparr>lotSize = 0, price = price ord\<rparr> \<and>
              (symbol, display_line orders) \<in> display_chm (insert_chm symbol ord m) \<and>
              (price ord, 0) \<in> display_line orders)) \<and>
         (quantity_at m symbol (price ord) = Some q \<longrightarrow>
            insert_chm symbol ord m = m \<and>
            quantity_at (insert_chm symbol ord m) symbol (price ord) = Some q)"
proof (intro conjI impI)
  assume absent: "quantity_at m symbol (price ord) = None"
  let ?orders = "(subscript m symbol Map.empty)(price ord \<mapsto> \<lparr>lotSize = 0, price = price ord\<rparr>)"
  from absent have "subscript m symbol Map.empty (price ord) = None"
    by (auto simp: quantity_at_def subscript_def split: option.splits)
  then have ins: "insert_chm symbol ord m symbol = Some ?orders"
    by (simp add: insert_chm_same assms)
  moreover have "(price ord, 0) \<in> display_line ?orders"
    by (simp add: display_line_def)
  ultimately show "\<exists>orders. insert_chm symbol ord m symbol = Some orders \<and>
      orders (price ord) = Some \<lparr>lotSize = 0, price = price ord\<rparr> \<and>
      (symbol, display_line orders) \<in> display_chm (insert_chm symbol ord m) \<and>
      (price ord, 0) \<in> display_line orders"
    by (simp add: display_chm_iff)
next
  assume present: "quantity_at m symbol (price ord) = Some q"
  then obtain orders cell where m: "m symbol = Some orders" "orders (price ord) = Some cell"
    by (auto simp: quantity_at_def split: option.splits)
  then have "orders(price ord \<mapsto> fetch_add cell 0) = orders"
    by (auto simp: fetch_add_def)
  with m show same: "insert_chm symbol ord m = m"
    by (auto simp: insert_chm_def Let_def subscript_def assms)
  with present show "quantity_at (insert_chm symbol ord m) symbol (price ord) = Some q"
    by simp
qed

theorem insert_zero_quantity_witness:
  "lotSize (Order_new 0 7) = 0 \<and>
   quantity_at Map.empty ''ZERO'' (price (Order_new 0 7)) = None \<and>
   (\<exists>orders. insert_chm ''ZERO'' (Order_new 0 7) Map.empty ''ZERO'' = Some orders \<and>
      orders 7 = Some \<lparr>lotSize = 0, price = 7\<rparr> \<and>
      (''ZERO'', display_line orders) \<in> display_chm (insert_chm ''ZERO'' (Order_new 0 7) Map.empty) \<and>
      (7, 0) \<in> display_line orders) \<and>
   quantity_at [''ZERO'' \<mapsto> [7 \<mapsto> Order_new 30 7]] ''ZERO'' (price (Order_new 0 7)) = Some 30 \<and>
   insert_chm ''ZERO'' (Order_new 0 7) [''ZERO'' \<mapsto> [7 \<mapsto> Order_new 30 7]] =
     [''ZERO'' \<mapsto> [7 \<mapsto> Order_new 30 7]] \<and>
   quantity_at (insert_chm ''ZERO'' (Order_new 0 7) [''ZERO'' \<mapsto> [7 \<mapsto> Order_new 30 7]])
     ''ZERO'' 7 = Some 30"
proof -
  have zero: "lotSize (Order_new 0 7) = 0" and seven: "price (Order_new 0 7) = 7"
    by (simp_all add: Order_new_def)
  have absent: "quantity_at Map.empty ''ZERO'' 7 = None"
    by (simp add: quantity_at_def)
  have present: "quantity_at [''ZERO'' \<mapsto> [7 \<mapsto> Order_new 30 7]] ''ZERO'' 7 = Some 30"
    by (simp add: quantity_at_def Order_new_def)
  note fresh = insert_zero_quantity [OF zero, of Map.empty "''ZERO''" 0, unfolded seven]
  note merge = insert_zero_quantity [OF zero, of "[''ZERO'' \<mapsto> [7 \<mapsto> Order_new 30 7]]" "''ZERO''" 30,
      unfolded seven]
  from fresh absent merge present zero seven show ?thesis
    by simp
qed

lemma cells_iff:
  "(symbol, p, cell) \<in> cells m \<longleftrightarrow> (\<exists>orders. m symbol = Some orders \<and> orders p = Some cell)"
  by (simp add: cells_def)

lemma run_Nil: "run [] m = m"
  by (simp add: run_def)

lemma run_Cons: "run (a # ops) m = run ops (apply_op a m)"
  by (simp add: run_def)

lemma run_append: "run (ops @ ops') m = run ops' (run ops m)"
  by (simp add: run_def)

lemma run_snoc: "run (ops @ [a]) m = apply_op a (run ops m)"
  by (simp add: run_def)

lemma sint_add_no_overflow:
  fixes a b :: "32 word"
  assumes "0 \<le> sint b" and "sint a + sint b < 2 ^ 31"
  shows "sint (a + b) = sint a + sint b"
proof -
  have "- (2 ^ 31) \<le> sint a"
    using sint_ge [of a] by simp
  with assms have "signed_take_bit 31 (sint a + sint b) = sint a + sint b"
    by (intro signed_take_bit_int_eq_self) simp_all
  then show ?thesis
    by (simp add: sint_word_add)
qed

section \<open>Merging quantities\<close>

text \<open>
  Claim C1 (amended). Take operations \<open>ops\<close> that do not remove the symbol, started on a
  map in which the (symbol, price) pair has no cell, and that insert at the pair at least
  once. Afterwards the pair has a cell, and its quantity is the sum of the quantities
  inserted at the pair in 32-bit wrap-around arithmetic: read as a signed integer it is
  the exact sum reduced to the range of \<^verbatim>\<open>int\<close>, and it is the exact sum whenever that
  sum lies between \<open>-2\<^sup>3\<^sup>1\<close> and \<open>2\<^sup>3\<^sup>1 - 1\<close>. Inserts at other pairs and removes of
  other symbols may be interleaved.
\<close>

theorem insert_sequence_sum:
  assumes "Remove symbol \<notin> set ops"
    and "quantity_at m symbol p = None"
    and "inserted symbol p ops \<noteq> []"
  shows "quantity_at (run ops m) symbol p = Some (sum_list (inserted symbol p ops)) \<and>
         map_option sint (quantity_at (run ops m) symbol p) =
           Some (signed_take_bit 31 (sum_list (map sint (inserted symbol p ops)))) \<and>
         (- (2 ^ 31) \<le> sum_list (map sint (inserted symbol p ops)) \<and>
          sum_list (map sint (inserted symbol p ops)) < 2 ^ 31 \<longrightarrow>
            map_option sint (quantity_at (run ops m) symbol p) =
              Some (sum_list (map sint (inserted symbol p ops))))"
proof -
  from assms have stored: "quantity_at (run ops m) symbol p = Some (sum_list (inserted symbol p ops))"
    by (simp add: quantity_at_run)
  then have wrapped: "map_option sint (quantity_at (run ops m) symbol p) =
      Some (signed_take_bit 31 (sum_list (map sint (inserted symbol p ops))))"
    by (simp add: sint_sum_list)
  then show ?thesis
    using stored by (simp add: signed_take_bit_int_eq_self)
qed

theorem insert_sequence_sum_witness:
  "Remove ''TEST'' \<notin> set [Insert ''TEST'' (Order_new 10 2), Insert ''OTHER'' (Order_new 7 2),
      Insert ''TEST'' (Order_new 20 2), Remove ''OTHER'', Insert ''TEST'' (Order_new 5 3)] \<and>
   quantity_at Map.empty ''TEST'' 2 = None \<and>
   inserted ''TEST'' 2 [Insert ''TEST'' (Order_new 10 2), Insert ''OTHER'' (Order_new 7 2),
      Insert ''TEST'' (Order_new 20 2), Remove ''OTHER'', Insert ''TEST'' (Order_new 5 3)] = [10, 20] \<and>
   - (2 ^ 31) \<le> sum_list (map sint [10, 20 :: 32 word]) \<and>
   sum_list (map sint [10, 20 :: 32 word]) < 2 ^ 31 \<and>
   map_option sint (quantity_at (run [Insert ''TEST'' (Order_new 10 2), Insert ''OTHER'' (Order_new 7 2),
      Insert ''TEST'' (Order_new 20 2), Remove ''OTHER'', Insert ''TEST'' (Order_new 5 3)] Map.empty)
      ''TEST'' 2) = Some 30"
  using insert_sequence_sum [of "''TEST''" "[Insert ''TEST'' (Order_new 10 2),
      Insert ''OTHER'' (Order_new 7 2), Insert ''TEST'' (Order_new 20 2), Remove ''OTHER'',
      Insert ''TEST'' (Order_new 5 3)]" Map.empty 2]
  by (simp add: quantity_at_empty Order_new_def)

text \<open>
  The exact sum is not always what is stored: \<^verbatim>\<open>insert("A", Order(2147483647, 2))\<close>
  followed by \<^verbatim>\<open>insert("A", Order(1, 2))\<close> leaves \<open>-2147483648\<close> in the cell, and
  the sum of the two quantities is \<open>2147483648\<close>.
\<close>

theorem insert_sequence_sum_counterexample:
  "map_option sint (quantity_at (run [Insert ''A'' (Order_new 2147483647 2),
      Insert ''A'' (Order_new 1 2)] Map.empty) ''A'' 2) = Some (- 2147483648) \<and>
   sum_list (map sint (inserted ''A'' 2 [Insert ''A'' (Order_new 2147483647 2),
      Insert ''A'' (Order_new 1 2)])) = 2147483648 \<and>
   (- 2147483648 :: int) \<noteq> 2147483648"
  by (simp add: run_def quantity_at_insert quantity_at_empty Order_new_def)

text \<open>
  Claim C8 (amended). A merge-add of a quantity that is not negative, into a cell whose
  quantity plus the added one does not exceed \<open>2\<^sup>3\<^sup>1 - 1\<close>, stores the exact sum and
  leaves the quantity greater than or equal to its previous value.
\<close>

theorem merge_add_nonnegative:
  assumes "quantity_at m symbol (price ord) = Some q"
    and "0 \<le> sint (lotSize ord)"
    and "sint q + sint (lotSize ord) < 2 ^ 31"
  shows "quantity_at (insert_chm symbol ord m) symbol (price ord) = Some (q + lotSize ord) \<and>
         sint (q + lotSize ord) = sint q + sint (lotSize ord) \<and>
         sint q \<le> sint (q + lotSize ord)"
  using assms by (simp add: quantity_at_insert sint_add_no_overflow)

theorem merge_add_nonnegative_witness:
  "quantity_at [''TEST'' \<mapsto> [2 \<mapsto> Order_new 10 2]] ''TEST'' (price (Order_new 20 2)) = Some 10 \<and>
   0 \<le> sint (lotSize (Order_new 20 2)) \<and>
   sint (10 :: 32 word) + sint (lotSize (Order_new 20 2)) < 2 ^ 31 \<and>
   quantity_at (insert_chm ''TEST'' (Order_new 20 2) [''TEST'' \<mapsto> [2 \<mapsto> Order_new 10 2]]) ''TEST'' 2
     = Some 30 \<and>
   sint (10 :: 32 word) \<le> sint (30 :: 32 word)"
  using merge_add_nonnegative [of "[''TEST'' \<mapsto> [2 \<mapsto> Order_new 10 2]]" "''TEST''" "Order_new 20 2" 10]
  by (simp add: quantity_at_def Order_new_def)

text \<open>
  \<^verbatim>\<open>insert\<close> accepts any quantity, and a negative one lowers the cell:
  \<^verbatim>\<open>insert("A", Order(10, 2))\<close> followed by \<^verbatim>\<open>insert("A", Order(-5, 2))\<close> takes the
  quantity from 10 to 5.
\<close>

theorem merge_add_decreases_counterexample:
  "map_option sint (quantity_at (insert_chm ''A'' (Order_new 10 2) Map.empty) ''A'' 2) = Some 10 \<and>
   map_option sint (quantity_at (insert_chm ''A'' (Order_new (- 5) 2)
      (insert_chm ''A'' (Order_new 10 2) Map.empty)) ''A'' 2) = Some 5 \<and>
   \<not> (10 :: int) \<le> 5"
  by (simp add: quantity_at_insert quantity_at_empty Order_new_def)

section \<open>Invariants of the reachable maps\<close>

lemma key_consistent_insert:
  assumes "key_consistent m"
  shows "key_consistent (insert_chm symbol ord m)"
  unfolding key_consistent_def cells_iff
proof (intro allI impI)
  fix s p cell
  assume "\<exists>orders. insert_chm symbol ord m s = Some orders \<and> orders p = Some cell"
  then obtain orders where
    ins: "insert_chm symbol ord m s = Some orders" and at: "orders p = Some cell"
    by blast
  show "price cell = p"
  proof (cases "s = symbol")
    case False
    with ins at assms show ?thesis
      by (auto simp: insert_chm_other key_consistent_def cells_iff)
  next
    case True
    show ?thesis
    proof (cases "p = price ord")
      case False
      with True ins at have "subscript m symbol Map.empty p = Some cell"
        by (auto simp: insert_chm_same)
      then have "(symbol, p, cell) \<in> cells m"
        by (auto simp: subscript_def cells_iff split: option.splits)
      with assms show ?thesis
        by (simp add: key_consistent_def)
    next
      case same: True
      show ?thesis
      proof (cases "subscript m symbol Map.empty (price ord)")
        case None
        with True same ins at show ?thesis
          by (auto simp: insert_chm_same)
      next
        case (Some old)
        then have "(symbol, price ord, old) \<in> cells m"
          by (auto simp: subscript_def cells_iff split: option.splits)
        with assms have "price old = price ord"
          by (simp add: key_consistent_def)
        with Some True same ins at show ?thesis
          by (auto simp: insert_chm_same)
      qed
    qed
  qed
qed

lemma key_consistent_remove:
  "key_consistent m \<Longrightarrow> key_consistent (remove_chm symbol m)"
  by (auto simp: key_consistent_def cells_iff remove_chm_def split: if_splits)

lemma key_consistent_run: "key_consistent m \<Longrightarrow> key_consistent (run ops m)"
proof (induction ops arbitrary: m)
  case Nil
  then show ?case by (simp add: run_Nil)
next
  case (Cons a ops)
  then show ?case
    by (cases a) (simp_all add: run_Cons key_consistent_insert key_consistent_remove)
qed

lemma key_consistent_empty: "key_consistent Map.empty"
  by (simp add: key_consistent_def cells_iff)

lemma run_test_insert:
  "run [Insert ''TEST'' (Order_new 10 2), Insert ''TEST'' (Order_new 20 2),
        Insert ''TEST'' (Order_new 5 3)] Map.empty
   = [''TEST'' \<mapsto> [2 \<mapsto> \<lparr>lotSize = 30, price = 2\<rparr>, 3 \<mapsto> \<lparr>lotSize = 5, price = 3\<rparr>]]"
  by (simp add: run_def insert_chm_def subscript_def Order_new_def fetch_add_def move_assign_def
      Order_default_def)

text \<open>
  Claim C9. After any sequence of insert and remove operations on the empty map, a cell
  stored under price key \<open>p\<close> of some symbol has \<open>p\<close> in its own price field. A new cell
  is a default-constructed slot (price 0) that the move assignment overwrites with the
  order's price, which is the key of the slot; a merge changes the lot size only.
\<close>

theorem cell_price_is_key:
  assumes "run ops Map.empty symbol = Some orders" and "orders p = Some cell"
  shows "price cell = p"
proof -
  have "key_consistent (run ops Map.empty)"
    by (rule key_consistent_run [OF key_consistent_empty])
  moreover from assms have "(symbol, p, cell) \<in> cells (run ops Map.empty)"
    by (auto simp: cells_iff)
  ultimately show ?thesis
    by (simp add: key_consistent_def)
qed

theorem cell_price_is_key_witness:
  "run [Insert ''TEST'' (Order_new 10 2), Insert ''TEST'' (Order_new 20 2),
        Insert ''TEST'' (Order_new 5 3)] Map.empty ''TEST''
     = Some [2 \<mapsto> \<lparr>lotSize = 30, price = 2\<rparr>, 3 \<mapsto> \<lparr>lotSize = 5, price = 3\<rparr>] \<and>
   [2 \<mapsto> \<lparr>lotSize = 30, price = 2\<rparr>, 3 \<mapsto> \<lparr>lotSize = 5, price = 3\<rparr>] 3
     = Some \<lparr>lotSize = 5, price = 3\<rparr> \<and>
   price \<lparr>lotSize = 5, price = 3\<rparr> = 3"
  using cell_price_is_key [of "[Insert ''TEST'' (Order_new 10 2), Insert ''TEST'' (Order_new 20 2),
        Insert ''TEST'' (Order_new 5 3)]" "''TEST''"
        "[2 \<mapsto> \<lparr>lotSize = 30, price = 2\<rparr>, 3 \<mapsto> \<lparr>lotSize = 5, price = 3\<rparr>]" 3
        "\<lparr>lotSize = 5, price = 3\<rparr>"]
  by (simp add: run_test_insert)

lemma no_empty_entry_insert:
  "no_empty_entry m \<Longrightarrow> no_empty_entry (insert_chm symbol ord m)"
  unfolding no_empty_entry_def
proof
  fix s
  assume inv: "\<forall>symbol. m symbol \<noteq> Some Map.empty"
  show "insert_chm symbol ord m s \<noteq> Some Map.empty"
  proof (cases "s = symbol")
    case True
    have "insert_chm symbol ord m symbol = Some orders \<Longrightarrow> orders (price ord) \<noteq> None" for orders
      by (auto simp: insert_chm_same)
    with True show ?thesis by auto
  next
    case False
    with inv show ?thesis by (simp add: insert_chm_other)
  qed
qed

lemma no_empty_entry_remove:
  "no_empty_entry m \<Longrightarrow> no_empty_entry (remove_chm symbol m)"
  by (simp add: no_empty_entry_def remove_chm_def)

lemma no_empty_entry_run: "no_empty_entry m \<Longrightarrow> no_empty_entry (run ops m)"
proof (induction ops arbitrary: m)
  case Nil
  then show ?case by (simp add: run_Nil)
next
  case (Cons a ops)
  then show ?case
    by (cases a) (simp_all add: run_Cons no_empty_entry_insert no_empty_entry_remove)
qed

lemma run_stays_absent:
  "m symbol = None \<Longrightarrow> symbol \<notin> set (insert_symbols ops) \<Longrightarrow> run ops m symbol = None"
proof (induction ops arbitrary: m)
  case Nil
  then show ?case by (simp add: run_Nil)
next
  case (Cons a ops)
  show ?case
  proof (cases a)
    case (Insert s ord)
    with Cons.prems have "s \<noteq> symbol" by auto
    with Cons Insert show ?thesis
      by (simp add: run_Cons insert_chm_other)
  next
    case (Remove s)
    with Cons show ?thesis
      by (simp add: run_Cons remove_chm_def)
  qed
qed

text \<open>
  Claim C3. After any sequence of insert and remove operations on the empty map there is
  at most one cell per (symbol, price) pair and at most one inner mapping per symbol
  (\<^verbatim>\<open>std::unordered_map\<close> keeps one element per key on both levels), no symbol is
  present with an empty inner mapping, and a symbol that has been removed is absent, with
  no cell and no line in the enumeration, until an insert names it again.
\<close>

theorem one_cell_per_pair:
  fixes ops :: "'k op list"
  shows "((symbol, p, cell1) \<in> cells (run ops Map.empty) \<and>
          (symbol, p, cell2) \<in> cells (run ops Map.empty) \<longrightarrow> cell1 = cell2) \<and>
         (run ops Map.empty symbol = Some orders1 \<and>
          run ops Map.empty symbol = Some orders2 \<longrightarrow> orders1 = orders2) \<and>
         run ops Map.empty symbol \<noteq> Some Map.empty \<and>
         run (ops @ [Remove symbol]) Map.empty symbol = None \<and>
         (symbol \<notin> set (insert_symbols ops') \<longrightarrow>
            run (ops @ Remove symbol # ops') Map.empty symbol = None \<and>
            (symbol, p, cell1) \<notin> cells (run (ops @ Remove symbol # ops') Map.empty) \<and>
            (symbol, l) \<notin> display_chm (run (ops @ Remove symbol # ops') Map.empty))"
proof (intro conjI impI)
  show "cell1 = cell2"
    if "(symbol, p, cell1) \<in> cells (run ops Map.empty) \<and>
        (symbol, p, cell2) \<in> cells (run ops Map.empty)"
    using that by (auto simp: cells_iff)
  show "orders1 = orders2"
    if "run ops Map.empty symbol = Some orders1 \<and> run ops Map.empty symbol = Some orders2"
    using that by (elim conjE) simp
  have "no_empty_entry (run ops Map.empty)"
    by (rule no_empty_entry_run) (simp add: no_empty_entry_def)
  then show "run ops Map.empty symbol \<noteq> Some Map.empty"
    by (simp add: no_empty_entry_def)
  show "run (ops @ [Remove symbol]) Map.empty symbol = None"
    by (simp add: run_snoc remove_chm_def)
  assume quiet: "symbol \<notin> set (insert_symbols ops')"
  have "run ops' (remove_chm symbol (run ops Map.empty)) symbol = None"
    by (rule run_stays_absent [OF _ quiet]) (simp add: remove_chm_def)
  then show gone: "run (ops @ Remove symbol # ops') Map.empty symbol = None"
    by (simp add: run_append run_Cons)
  from gone show "(symbol, p, cell1) \<notin> cells (run (ops @ Remove symbol # ops') Map.empty)"
    by (simp add: cells_iff)
  from gone show "(symbol, l) \<notin> display_chm (run (ops @ Remove symbol # ops') Map.empty)"
    by (simp add: display_chm_iff)
qed

theorem one_cell_per_pair_witness:
  "(''TEST'', 2, \<lparr>lotSize = 30, price = 2\<rparr>) \<in> cells (run [Insert ''TEST'' (Order_new 10 2),
      Insert ''TEST'' (Order_new 20 2), Insert ''TEST'' (Order_new 5 3)] Map.empty) \<and>
   run [Insert ''TEST'' (Order_new 10 2), Insert ''TEST'' (Order_new 20 2),
      Insert ''TEST'' (Order_new 5 3)] Map.empty ''TEST''
     = Some [2 \<mapsto> \<lparr>lotSize = 30, price = 2\<rparr>, 3 \<mapsto> \<lparr>lotSize = 5, price = 3\<rparr>] \<and>
   ''TEST'' \<notin> set (insert_symbols [Insert ''OTHER'' (Order_new 1 1)]) \<and>
   run ([Insert ''TEST'' (Order_new 10 2), Insert ''TEST'' (Order_new 20 2),
      Insert ''TEST'' (Order_new 5 3)] @ [Remove ''TEST'']) Map.empty ''TEST'' = None \<and>
   run ([Insert ''TEST'' (Order_new 10 2), Insert ''TEST'' (Order_new 20 2),
      Insert ''TEST'' (Order_new 5 3)] @ Remove ''TEST'' # [Insert ''OTHER'' (Order_new 1 1)])
      Map.empty ''TEST'' = None"
  using one_cell_per_pair [of "''TEST''" 2 "\<lparr>lotSize = 30, price = 2\<rparr>"
      "[Insert ''TEST'' (Order_new 10 2), Insert ''TEST'' (Order_new 20 2),
        Insert ''TEST'' (Order_new 5 3)]"
      "\<lparr>lotSize = 30, price = 2\<rparr>"
      "[2 \<mapsto> \<lparr>lotSize = 30, price = 2\<rparr>, 3 \<mapsto> \<lparr>lotSize = 5, price = 3\<rparr>]"
      "[2 \<mapsto> \<lparr>lotSize = 30, price = 2\<rparr>, 3 \<mapsto> \<lparr>lotSize = 5, price = 3\<rparr>]"
      "[Insert ''OTHER'' (Order_new 1 1)]" "{}"]
  by (simp add: run_test_insert cells_iff)

section \<open>Concurrent inserts at one pair\<close>

lemma thread_insert_absent:
  "m symbol = None \<Longrightarrow>
   thread_insert symbol p i m symbol = Some [p \<mapsto> \<lparr>lotSize = of_nat i + 1, price = p\<rparr>]"
  by (simp add: thread_insert_def insert_chm_same subscript_def Order_new_def)

lemma thread_insert_present:
  "m symbol = Some [p \<mapsto> \<lparr>lotSize = q, price = p\<rparr>] \<Longrightarrow>
   thread_insert symbol p i m symbol = Some [p \<mapsto> \<lparr>lotSize = q + (of_nat i + 1), price = p\<rparr>]"
  by (simp add: thread_insert_def insert_chm_same subscript_def Order_new_def)

lemma thread_insert_other: "s \<noteq> symbol \<Longrightarrow> thread_insert symbol p i m s = m s"
  by (simp add: thread_insert_def insert_chm_other)

lemma concurrent_run_present:
  "m symbol = Some [p \<mapsto> \<lparr>lotSize = q, price = p\<rparr>] \<Longrightarrow>
   testConcurrentAccess_run symbol p sched m symbol =
     Some [p \<mapsto> \<lparr>lotSize = q + sum_list (map (\<lambda>i. of_nat i + 1) sched), price = p\<rparr>]"
proof (induction sched arbitrary: m q)
  case Nil
  then show ?case by (simp add: testConcurrentAccess_run_def)
next
  case (Cons i sched)
  let ?rest = "sum_list (map (\<lambda>i. of_nat i + 1) sched) :: 32 word"
  have total: "q + (of_nat i + 1) + ?rest = q + sum_list (map (\<lambda>i. of_nat i + 1) (i # sched))"
    by (simp add: add.assoc)
  from Cons.prems
  have step: "thread_insert symbol p i m symbol = Some [p \<mapsto> \<lparr>lotSize = q + (of_nat i + 1), price = p\<rparr>]"
    by (rule thread_insert_present)
  have "testConcurrentAccess_run symbol p (i # sched) m symbol =
        testConcurrentAccess_run symbol p sched (thread_insert symbol p i m) symbol"
    by (simp add: testConcurrentAccess_run_def)
  also from step have "\<dots> = Some [p \<mapsto> \<lparr>lotSize = q + (of_nat i + 1) + ?rest, price = p\<rparr>]"
    by (rule Cons.IH)
  finally show ?case
    by (simp only: total)
qed

lemma concurrent_run_absent:
  assumes "m symbol = None" and "sched \<noteq> []"
  shows "testConcurrentAccess_run symbol p sched m symbol =
     Some [p \<mapsto> \<lparr>lotSize = sum_list (map (\<lambda>i. of_nat i + 1) sched), price = p\<rparr>]"
proof (cases sched)
  case Nil
  with assms show ?thesis by simp
next
  case (Cons i rest)
  from assms(1)
  have step: "thread_insert symbol p i m symbol = Some [p \<mapsto> \<lparr>lotSize = of_nat i + 1, price = p\<rparr>]"
    by (rule thread_insert_absent)
  have "testConcurrentAccess_run symbol p (i # rest) m symbol =
        testConcurrentAccess_run symbol p rest (thread_insert symbol p i m) symbol"
    by (simp add: testConcurrentAccess_run_def)
  also from step have "\<dots> =
      Some [p \<mapsto> \<lparr>lotSize = of_nat i + 1 + sum_list (map (\<lambda>i. of_nat i + 1) rest), price = p\<rparr>]"
    by (rule concurrent_run_present)
  finally show ?thesis
    by (simp only: Cons list.map sum_list.Cons)
qed

lemma concurrent_run_other:
  "s \<noteq> symbol \<Longrightarrow> testConcurrentAccess_run symbol p sched m s = m s"
  by (induction sched arbitrary: m) (simp_all add: testConcurrentAccess_run_def thread_insert_other)

lemma gauss_upto: "2 * (\<Sum>i = 0..<n. Suc i) = n * (n + 1)"
  by (induction n) simp_all

lemma gauss_int: "(\<Sum>i = 1..n. int i) = int (n * (n + 1) div 2)"
proof -
  have "2 * (\<Sum>i = 1..n. int i) = int (n * (n + 1))"
    by (induction n) (simp_all add: algebra_simps)
  moreover have "even (n * (n + 1))"
    by simp
  ultimately show ?thesis
    by (simp add: zdiv_int)
qed

lemma schedule_sum:
  assumes "schedule n sched"
  shows "sum_list (map (\<lambda>i. of_nat i + 1) sched) = (of_nat (n * (n + 1) div 2) :: 32 word)"
proof -
  have "sum_list (map (\<lambda>i. of_nat i + 1) sched) = (of_nat (sum_list (map Suc sched)) :: 32 word)"
    by (induction sched) simp_all
  also have "sum_list (map Suc sched) = (\<Sum>i = 0..<n. Suc i)"
    using assms by (simp add: schedule_def sum_list_distinct_conv_sum_set)
  also have "\<dots> = n * (n + 1) div 2"
    using gauss_upto [of n] by simp
  finally show ?thesis .
qed

lemma schedule_nonempty: "schedule n sched \<Longrightarrow> 1 \<le> n \<Longrightarrow> sched \<noteq> []"
  by (auto simp: schedule_def)

lemma concurrent_total:
  assumes "schedule n sched" and "1 \<le> n"
  shows "testConcurrentAccess_run symbol p sched Map.empty =
     [symbol \<mapsto> [p \<mapsto> \<lparr>lotSize = of_nat (n * (n + 1) div 2), price = p\<rparr>]]"
proof
  fix s
  show "testConcurrentAccess_run symbol p sched Map.empty s =
     [symbol \<mapsto> [p \<mapsto> \<lparr>lotSize = of_nat (n * (n + 1) div 2), price = p\<rparr>]] s"
  proof (cases "s = symbol")
    case True
    with concurrent_run_absent [where m = Map.empty and symbol = symbol and sched = sched and p = p] schedule_nonempty [OF assms]
      schedule_sum [OF assms(1)]
    show ?thesis by simp
  next
    case False
    then show ?thesis by (simp add: concurrent_run_other)
  qed
qed

lemma sint_of_nat_small:
  fixes k :: nat
  assumes "k < 2 ^ 31"
  shows "sint (of_nat k :: 32 word) = int k"
proof -
  have "int k < 2 ^ 31"
    using assms by (metis of_nat_less_iff of_nat_numeral of_nat_power)
  then have "signed_take_bit 31 (int k) = int k"
    by (intro signed_take_bit_int_eq_self) simp_all
  then show ?thesis
    by (simp add: signed_of_nat)
qed

lemma triangle_small:
  fixes n :: nat
  assumes "n \<le> 65535"
  shows "n * (n + 1) div 2 < 2 ^ 31"
proof -
  have "n * (n + 1) \<le> 65535 * 65536"
    using assms by (intro mult_le_mono) simp_all
  then show ?thesis by simp
qed

lemma run_snoc_thread:
  "testConcurrentAccess_run symbol p (sched @ [i]) m =
   thread_insert symbol p i (testConcurrentAccess_run symbol p sched m)"
  by (simp add: testConcurrentAccess_run_def)

lemma thread_insert_merge:
  assumes "subscript m symbol Map.empty p \<noteq> None"
  shows "thread_insert symbol p i m =
     m(symbol \<mapsto> (subscript m symbol Map.empty)(p :=
         map_option (\<lambda>cell. fetch_add cell (of_nat i + 1)) (subscript m symbol Map.empty p)))"
  using assms
  by (auto simp: thread_insert_def insert_chm_def Let_def Order_new_def split: option.splits)

lemma thread_insert_create:
  assumes "subscript m symbol Map.empty p = None"
  shows "thread_insert symbol p i m =
     m(symbol \<mapsto> (subscript m symbol Map.empty)(p \<mapsto>
         move_assign (subscript (subscript m symbol Map.empty) p Order_default) (Order_new (of_nat i + 1) p)))"
  using assms
  by (auto simp: thread_insert_def insert_chm_def Let_def Order_new_def split: option.splits)

lemma lock_inv_init: "lock_inv symbol p n init_sys"
  unfolding lock_inv_def
  by (rule exI [of _ "[]"]) (simp add: init_sys_def testConcurrentAccess_run_def quiet_def)

lemma subscript_slot: "subscript (m(k \<mapsto> v)) k d = v"
  by (simp add: subscript_def)

lemma quiet_owner:
  assumes "quiet n j s" and "i < n" and "pcs s i \<noteq> Waiting" and "pcs s i \<noteq> Returned"
  shows "i = j"
  using assms unfolding quiet_def by blast

lemma quiet_enter:
  assumes "quiet n n s" and "pcs s' = (pcs s)(i := c)"
  shows "quiet n i s'"
  using assms unfolding quiet_def by auto

lemma quiet_leave:
  assumes "quiet n i s" and "pcs s' = (pcs s)(i := Returned)"
  shows "quiet n n s'"
  using assms unfolding quiet_def by auto

lemma quiet_stay:
  assumes "quiet n i s" and "pcs s' = (pcs s)(i := c)"
  shows "quiet n i s'"
  using assms unfolding quiet_def by auto

lemma lock_inv_step:
  assumes inv: "lock_inv symbol p n s" and step: "thread_step symbol p n i s = Some s'"
  shows "lock_inv symbol p n s'"
proof -
  from step have i: "i < n"
    by (auto simp: thread_step_def split: if_splits)
  from inv obtain sched where
    dist: "distinct sched" and
    returned: "set sched = {k. k < n \<and> pcs s k = Returned}" and
    body: "case mutex s of
              None \<Rightarrow> shared s = testConcurrentAccess_run symbol p sched Map.empty \<and> quiet n n s
            | Some j \<Rightarrow> j < n \<and> quiet n j s \<and>
                (case pcs s j of
                   Searching \<Rightarrow> shared s = testConcurrentAccess_run symbol p sched Map.empty
                 | Merging \<Rightarrow> shared s = (testConcurrentAccess_run symbol p sched Map.empty)(symbol \<mapsto>
                       subscript (testConcurrentAccess_run symbol p sched Map.empty) symbol Map.empty) \<and>
                     subscript (testConcurrentAccess_run symbol p sched Map.empty) symbol Map.empty p \<noteq> None
                 | Creating \<Rightarrow> shared s = (testConcurrentAccess_run symbol p sched Map.empty)(symbol \<mapsto>
                       subscript (testConcurrentAccess_run symbol p sched Map.empty) symbol Map.empty) \<and>
                     subscript (testConcurrentAccess_run symbol p sched Map.empty) symbol Map.empty p = None
                 | _ \<Rightarrow> False)"
    unfolding lock_inv_def Let_def by blast
  define base where "base = testConcurrentAccess_run symbol p sched Map.empty"
  define orders where "orders = subscript base symbol Map.empty"
  note body' = body [folded base_def, folded orders_def]
  have owner: "mutex s = Some i" if "pcs s i \<noteq> Waiting" "pcs s i \<noteq> Returned"
  proof (cases "mutex s")
    case None
    with body' have "quiet n n s" by simp
    from quiet_owner [OF this i that] i show ?thesis by simp
  next
    case (Some j)
    with body' have "quiet n j s" by simp
    from quiet_owner [OF this i that] Some show ?thesis by simp
  qed
  have fresh: "i \<notin> set sched" if "pcs s i \<noteq> Returned"
    using that returned by simp
  show ?thesis
  proof (cases "pcs s i")
    case Waiting
    with step i have free: "mutex s = None"
      and s': "s' = s\<lparr>mutex := Some i, pcs := (pcs s)(i := Searching)\<rparr>"
      by (auto simp: thread_step_def Let_def split: if_splits)
    from body' free have sh: "shared s = base" and q: "quiet n n s"
      by simp_all
    have "quiet n i s'"
      by (rule quiet_enter [OF q]) (simp add: s')
    moreover have "{k. k < n \<and> pcs s' k = Returned} = {k. k < n \<and> pcs s k = Returned}"
      using Waiting by (auto simp: s')
    with returned have "set sched = {k. k < n \<and> pcs s' k = Returned}"
      by (simp only:)
    ultimately show ?thesis
      unfolding lock_inv_def Let_def
      using dist i sh by (intro exI [of _ sched]) (simp add: s' base_def)
  next
    case Searching
    then have own: "mutex s = Some i" by (intro owner) simp_all
    with body' Searching have sh: "shared s = base" and q: "quiet n i s"
      by simp_all
    from step i Searching have s': "s' = s\<lparr>shared := (shared s)(symbol \<mapsto> orders),
        pcs := (pcs s)(i := (case orders p of Some cell \<Rightarrow> Merging | None \<Rightarrow> Creating))\<rparr>"
      by (simp add: thread_step_def Let_def Order_new_def sh orders_def)
    have "quiet n i s'"
      by (rule quiet_stay [OF q]) (simp add: s')
    moreover have "{k. k < n \<and> pcs s' k = Returned} = {k. k < n \<and> pcs s k = Returned}"
      using Searching by (auto simp: s' split: option.splits)
    with returned have "set sched = {k. k < n \<and> pcs s' k = Returned}"
      by (simp only:)
    ultimately show ?thesis
      unfolding lock_inv_def Let_def
      using dist i sh own
      by (intro exI [of _ sched]) (auto simp: s' base_def orders_def split: option.splits)
  next
    case Merging
    then have own: "mutex s = Some i" by (intro owner) simp_all
    with body' Merging have sh: "shared s = base(symbol \<mapsto> orders)" and q: "quiet n i s"
      and found: "orders p \<noteq> None"
      by simp_all
    from step i Merging have s': "s' = s\<lparr>shared := thread_insert symbol p i base,
        mutex := None, pcs := (pcs s)(i := Returned)\<rparr>"
      using found
      by (simp add: thread_step_def Let_def Order_new_def sh subscript_slot
          thread_insert_merge [where m = base and symbol = symbol and i = i and p = p, folded orders_def])
    have "quiet n n s'"
      by (rule quiet_leave [OF q]) (simp add: s')
    moreover have "{k. k < n \<and> pcs s' k = Returned} = insert i {k. k < n \<and> pcs s k = Returned}"
      using i by (auto simp: s')
    with returned have "set (sched @ [i]) = {k. k < n \<and> pcs s' k = Returned}"
      by (simp only: set_append list.set Un_insert_right Un_empty_right)
    moreover have "distinct (sched @ [i])"
      using dist fresh Merging by simp
    ultimately show ?thesis
      unfolding lock_inv_def Let_def
      by (intro exI [of _ "sched @ [i]"]) (simp add: s' run_snoc_thread base_def)
  next
    case Creating
    then have own: "mutex s = Some i" by (intro owner) simp_all
    with body' Creating have sh: "shared s = base(symbol \<mapsto> orders)" and q: "quiet n i s"
      and absent: "orders p = None"
      by simp_all
    from step i Creating have s': "s' = s\<lparr>shared := thread_insert symbol p i base,
        mutex := None, pcs := (pcs s)(i := Returned)\<rparr>"
      using absent
      by (simp add: thread_step_def Let_def Order_new_def sh subscript_slot
          thread_insert_create [where m = base and symbol = symbol and i = i and p = p, folded orders_def,
            unfolded Order_new_def])
    have "quiet n n s'"
      by (rule quiet_leave [OF q]) (simp add: s')
    moreover have "{k. k < n \<and> pcs s' k = Returned} = insert i {k. k < n \<and> pcs s k = Returned}"
      using i by (auto simp: s')
    with returned have "set (sched @ [i]) = {k. k < n \<and> pcs s' k = Returned}"
      by (simp only: set_append list.set Un_insert_right Un_empty_right)
    moreover have "distinct (sched @ [i])"
      using dist fresh Creating by simp
    ultimately show ?thesis
      unfolding lock_inv_def Let_def
      by (intro exI [of _ "sched @ [i]"]) (simp add: s' run_snoc_thread base_def)
  next
    case Returned
    with step show ?thesis
      by (simp add: thread_step_def Let_def split: if_splits)
  qed
qed

lemma lock_inv_exec:
  "lock_inv symbol p n s \<Longrightarrow> exec symbol p n trace s = Some s' \<Longrightarrow> lock_inv symbol p n s'"
proof (induction trace arbitrary: s)
  case Nil
  then show ?case by simp
next
  case (Cons i trace)
  from Cons.prems(2) obtain t where
    step: "thread_step symbol p n i s = Some t" and rest: "exec symbol p n trace t = Some s'"
    by (auto split: option.splits)
  from Cons.prems(1) step have "lock_inv symbol p n t"
    by (rule lock_inv_step)
  then show ?case
    using rest by (rule Cons.IH)
qed

lemma joined_iff: "joined n s \<longleftrightarrow> (\<forall>i<n. pcs s i = Returned)"
  by (auto simp: joined_def list_all_iff)

lemma lock_inv_free:
  assumes "lock_inv symbol p n s" and "mutex s = None"
  shows "\<exists>sched. distinct sched \<and> set sched = {k. k < n \<and> pcs s k = Returned} \<and>
           shared s = testConcurrentAccess_run symbol p sched Map.empty \<and> quiet n n s"
  using assms unfolding lock_inv_def Let_def by simp

lemma lock_inv_held:
  assumes "lock_inv symbol p n s" and "mutex s = Some j"
  shows "j < n \<and> (pcs s j = Searching \<or> pcs s j = Merging \<or> pcs s j = Creating)"
proof (cases "pcs s j")
  case Waiting
  with assms show ?thesis
    unfolding lock_inv_def Let_def by auto
next
  case Returned
  with assms show ?thesis
    unfolding lock_inv_def Let_def by auto
next
  case Searching
  with assms show ?thesis
    unfolding lock_inv_def Let_def by auto
next
  case Merging
  with assms show ?thesis
    unfolding lock_inv_def Let_def by auto
next
  case Creating
  with assms show ?thesis
    unfolding lock_inv_def Let_def by auto
qed

lemma lock_inv_joined:
  assumes "lock_inv symbol p n s" and "joined n s"
  shows "\<exists>sched. schedule n sched \<and> shared s = testConcurrentAccess_run symbol p sched Map.empty"
proof -
  have free: "mutex s = None"
  proof (cases "mutex s")
    case (Some j)
    from lock_inv_held [OF assms(1) Some] have "j < n" and "pcs s j \<noteq> Returned"
      by auto
    with assms(2) show ?thesis
      by (simp add: joined_iff)
  qed simp
  from lock_inv_free [OF assms(1) free] obtain sched where
    dist: "distinct sched" and
    returned: "set sched = {k. k < n \<and> pcs s k = Returned}" and
    sh: "shared s = testConcurrentAccess_run symbol p sched Map.empty"
    by blast
  from assms(2) have "{k. k < n \<and> pcs s k = Returned} = {0..<n}"
    by (auto simp: joined_iff)
  with returned dist have "schedule n sched"
    by (simp add: schedule_def)
  with sh show ?thesis
    by blast
qed

lemma thread_step_pcs:
  assumes "thread_step symbol p n i s = Some s'"
  shows "i < n \<and> (\<exists>c. pcs s' = (pcs s)(i := c) \<and> Suc (remaining c) = remaining (pcs s i))"
  using assms
  by (cases "pcs s i")
    (auto simp: thread_step_def Let_def split: if_splits option.splits)

lemma work_step:
  assumes "thread_step symbol p n i s = Some s'"
  shows "Suc (work n s') = work n s"
proof -
  from thread_step_pcs [OF assms] obtain c where
    i: "i < n" and upd: "pcs s' = (pcs s)(i := c)" and
    less: "Suc (remaining c) = remaining (pcs s i)"
    by blast
  have split: "(\<Sum>k<n. f k) = f i + (\<Sum>k\<in>{..<n} - {i}. f k)" for f :: "nat \<Rightarrow> nat"
    using i by (simp add: sum.remove)
  have rest: "(\<Sum>k\<in>{..<n} - {i}. remaining (pcs s' k)) = (\<Sum>k\<in>{..<n} - {i}. remaining (pcs s k))"
    by (rule sum.cong) (simp_all add: upd)
  have after: "work n s' = remaining (pcs s' i) + (\<Sum>k\<in>{..<n} - {i}. remaining (pcs s' k))"
    unfolding work_def by (rule split)
  have before: "work n s = remaining (pcs s i) + (\<Sum>k\<in>{..<n} - {i}. remaining (pcs s k))"
    unfolding work_def by (rule split)
  have "pcs s' i = c"
    by (simp add: upd)
  with after before rest less show ?thesis
    by simp
qed

lemma work_exec: "exec symbol p n trace s = Some s' \<Longrightarrow> work n s' + length trace = work n s"
proof (induction trace arbitrary: s)
  case Nil
  then show ?case by simp
next
  case (Cons i trace)
  from Cons.prems obtain t where
    step: "thread_step symbol p n i s = Some t" and rest: "exec symbol p n trace t = Some s'"
    by (auto split: option.splits)
  from Cons.IH [OF rest] work_step [OF step] show ?case
    by simp
qed

lemma work_init: "work n init_sys = 3 * n"
  by (simp add: work_def init_sys_def)

lemma remaining_0: "remaining c = 0 \<longleftrightarrow> c = Returned"
  by (cases c) simp_all

lemma joined_work: "joined n s \<longleftrightarrow> work n s = 0"
  by (auto simp: joined_iff work_def remaining_0)

lemma no_deadlock:
  assumes "lock_inv symbol p n s" and "\<not> joined n s"
  shows "\<exists>i. thread_step symbol p n i s \<noteq> None"
proof (cases "mutex s")
  case None
  from lock_inv_free [OF assms(1) None] have q: "quiet n n s"
    by blast
  from assms(2) obtain i where i: "i < n" "pcs s i \<noteq> Returned"
    by (auto simp: joined_iff)
  with q have "pcs s i = Waiting"
    unfolding quiet_def by auto
  with i None have "thread_step symbol p n i s \<noteq> None"
    by (simp add: thread_step_def Let_def)
  then show ?thesis ..
next
  case (Some j)
  from lock_inv_held [OF assms(1) Some]
  have "j < n" and "pcs s j = Searching \<or> pcs s j = Merging \<or> pcs s j = Creating"
    by simp_all
  then have "thread_step symbol p n j s \<noteq> None"
    by (auto simp: thread_step_def Let_def)
  then show ?thesis ..
qed

lemma exec_append:
  "exec symbol p n (tr @ tr') s =
     (case exec symbol p n tr s of None \<Rightarrow> None | Some t \<Rightarrow> exec symbol p n tr' t)"
  by (induction tr arbitrary: s) (simp_all split: option.splits)

lemma exec_block:
  assumes "i < n" and "mutex s = None" and "pcs s i = Waiting"
  shows "exec symbol p n [i, i, i] s =
     Some (s\<lparr>shared := thread_insert symbol p i (shared s), mutex := None,
             pcs := (pcs s)(i := Returned)\<rparr>)"
proof (cases "subscript (shared s) symbol Map.empty p")
  case None
  with assms show ?thesis
    by (simp add: thread_step_def Let_def Order_new_def subscript_slot
        thread_insert_create [unfolded Order_new_def])
next
  case (Some cell)
  with assms show ?thesis
    by (simp add: thread_step_def Let_def Order_new_def subscript_slot thread_insert_merge)
qed

lemma exec_serial:
  assumes "distinct sched" and "\<forall>i\<in>set sched. i < n \<and> pcs s i = Waiting" and "mutex s = None"
  shows "exec symbol p n (serial_trace sched) s =
     Some (s\<lparr>shared := testConcurrentAccess_run symbol p sched (shared s), mutex := None,
             pcs := (\<lambda>k. if k \<in> set sched then Returned else pcs s k)\<rparr>)"
  using assms
proof (induction sched arbitrary: s)
  case Nil
  then show ?case
    by (simp add: serial_trace_def testConcurrentAccess_run_def)
next
  case (Cons i sched)
  let ?t = "s\<lparr>shared := thread_insert symbol p i (shared s), mutex := None,
      pcs := (pcs s)(i := Returned)\<rparr>"
  from Cons.prems have block: "exec symbol p n [i, i, i] s = Some ?t"
    by (intro exec_block) simp_all
  have "serial_trace (i # sched) = [i, i, i] @ serial_trace sched"
    by (simp add: serial_trace_def)
  then have "exec symbol p n (serial_trace (i # sched)) s = exec symbol p n (serial_trace sched) ?t"
    by (simp only: exec_append block option.case)
  also have "\<dots> = Some (?t\<lparr>shared := testConcurrentAccess_run symbol p sched (shared ?t), mutex := None,
      pcs := (\<lambda>k. if k \<in> set sched then Returned else pcs ?t k)\<rparr>)"
    using Cons.prems by (intro Cons.IH) auto
  also have "(\<lambda>k. if k \<in> set sched then Returned else pcs ?t k) =
      (\<lambda>k. if k \<in> set (i # sched) then Returned else pcs s k)"
    by auto
  finally show ?case
    by (simp add: testConcurrentAccess_run_def)
qed

lemma exec_serial_init:
  assumes "schedule n sched"
  shows "\<exists>s. exec symbol p n (serial_trace sched) init_sys = Some s \<and> joined n s \<and>
           shared s = testConcurrentAccess_run symbol p sched Map.empty"
proof -
  let ?final = "\<lparr>shared = testConcurrentAccess_run symbol p sched Map.empty, mutex = None,
      pcs = (\<lambda>k. if k \<in> set sched then Returned else Waiting)\<rparr>"
  from assms have dist: "distinct sched" and all: "set sched = {0..<n}"
    by (simp_all add: schedule_def)
  have "exec symbol p n (serial_trace sched) init_sys = Some ?final"
    using exec_serial [where sched = sched and n = n and s = init_sys and symbol = symbol and p = p]
    by (simp add: dist all init_sys_def cong del: if_weak_cong)
  moreover have "joined n ?final"
    by (simp add: joined_iff all)
  ultimately show ?thesis
    by simp
qed

lemma quantity_serial:
  assumes "1 \<le> n" and "schedule n sched"
  shows "testConcurrentAccess_quantity symbol p n (serial_trace sched) =
     Some (sint (of_nat (n * (n + 1) div 2) :: 32 word))"
proof -
  from exec_serial_init [OF assms(2), where symbol = symbol and p = p] obtain s where
    "exec symbol p n (serial_trace sched) init_sys = Some s" and "joined n s" and
    "shared s = testConcurrentAccess_run symbol p sched Map.empty"
    by blast
  then show ?thesis
    by (simp add: testConcurrentAccess_quantity_def concurrent_total [OF assms(2) assms(1)]
        quantity_at_def)
qed

text \<open>
  Claim C2 (amended). Let \<open>n \<ge> 1\<close> threads each insert the quantity \<open>i + 1\<close>
  (\<open>i = 0, \<dots>, n - 1\<close>) at one (symbol, price) pair, starting from the empty map, and let
  their steps interleave in any way that the mutex allows. Every such execution can go
  on until all threads have returned, it has exactly \<open>3 n\<close> steps then, and the map then
  holds exactly one symbol with exactly one cell, at that price. The quantity of the cell
  is the sum \<open>1 + 2 + \<dots> + n\<close> of the inserted quantities, added with wrap-around: the
  integer \<open>n (n + 1) / 2\<close> reduced modulo \<open>2\<^sup>3\<^sup>2\<close> to the range of \<^verbatim>\<open>int\<close>. No insert's
  quantity is lost, and for \<open>n \<le> 65535\<close> the quantity is \<open>n (n + 1) / 2\<close> itself.
\<close>

theorem concurrent_inserts_sum:
  assumes "1 \<le> n" and "exec symbol p n trace init_sys = Some s"
  shows "(joined n s \<longleftrightarrow> length trace = 3 * n) \<and>
         (\<not> joined n s \<longrightarrow> (\<exists>i. thread_step symbol p n i s \<noteq> None)) \<and>
         (joined n s \<longrightarrow>
            (\<exists>q. shared s = [symbol \<mapsto> [p \<mapsto> \<lparr>lotSize = q, price = p\<rparr>]] \<and>
                 q = of_nat (n * (n + 1) div 2) \<and>
                 sint q = signed_take_bit 31 (\<Sum>i = 1..n. int i) \<and>
                 (n \<le> 65535 \<longrightarrow> sint q = int (n * (n + 1) div 2))))"
proof (intro conjI impI)
  have inv: "lock_inv symbol p n s"
    using lock_inv_init assms(2) by (rule lock_inv_exec)
  from work_exec [OF assms(2)] have "work n s + length trace = 3 * n"
    by (simp add: work_init)
  then show "joined n s \<longleftrightarrow> length trace = 3 * n"
    by (auto simp: joined_work)
  show "\<exists>i. thread_step symbol p n i s \<noteq> None" if "\<not> joined n s"
    using inv that by (rule no_deadlock)
  assume "joined n s"
  with inv have "\<exists>sched. schedule n sched \<and>
      shared s = testConcurrentAccess_run symbol p sched Map.empty"
    by (rule lock_inv_joined)
  then obtain sched where sched: "schedule n sched"
    and sh: "shared s = testConcurrentAccess_run symbol p sched Map.empty"
    by (elim exE conjE)
  let ?q = "of_nat (n * (n + 1) div 2) :: 32 word"
  have total: "shared s = [symbol \<mapsto> [p \<mapsto> \<lparr>lotSize = ?q, price = p\<rparr>]]"
    unfolding sh using sched assms(1) by (rule concurrent_total)
  have "sint ?q = signed_take_bit 31 (int (n * (n + 1) div 2))"
    by (simp add: signed_of_nat)
  then have wrapped: "sint ?q = signed_take_bit 31 (\<Sum>i = 1..n. int i)"
    by (simp only: gauss_int)
  have exact: "n \<le> 65535 \<longrightarrow> sint ?q = int (n * (n + 1) div 2)"
    by (intro impI sint_of_nat_small triangle_small)
  from total wrapped exact
  show "\<exists>q. shared s = [symbol \<mapsto> [p \<mapsto> \<lparr>lotSize = q, price = p\<rparr>]] \<and>
      q = of_nat (n * (n + 1) div 2) \<and>
      sint q = signed_take_bit 31 (\<Sum>i = 1..n. int i) \<and>
      (n \<le> 65535 \<longrightarrow> sint q = int (n * (n + 1) div 2))"
    by (intro exI [of _ ?q] conjI refl)
qed

lemma exec_complete_3:
  "exec ''CONCURRENCY_TEST'' 2 3 [2, 2, 2, 0, 0, 0, 1, 1, 1] init_sys =
     Some \<lparr>shared = [''CONCURRENCY_TEST'' \<mapsto> [2 \<mapsto> \<lparr>lotSize = 6, price = 2\<rparr>]],
           mutex = None, pcs = (\<lambda>i. Waiting)(2 := Returned, 0 := Returned, 1 := Returned)\<rparr>"
  by (simp add: thread_step_def init_sys_def Let_def Order_new_def subscript_def fetch_add_def
      move_assign_def Order_default_def)

lemma exec_partial_3:
  "exec ''CONCURRENCY_TEST'' 2 3 [2, 2, 2, 0] init_sys =
     Some \<lparr>shared = [''CONCURRENCY_TEST'' \<mapsto> [2 \<mapsto> \<lparr>lotSize = 3, price = 2\<rparr>]],
           mutex = Some 0, pcs = (\<lambda>i. Waiting)(2 := Returned, 0 := Searching)\<rparr>"
  by (simp add: thread_step_def init_sys_def Let_def Order_new_def subscript_def fetch_add_def
      move_assign_def Order_default_def)

text \<open>A thread cannot pass the lock while another thread owns the mutex.\<close>

lemma exec_blocked_3: "exec ''CONCURRENCY_TEST'' 2 3 [2, 0] init_sys = None"
  by (simp add: thread_step_def init_sys_def Let_def)

theorem concurrent_inserts_sum_witness:
  "(1::nat) \<le> 3 \<and>
   exec ''CONCURRENCY_TEST'' 2 3 [2, 2, 2, 0, 0, 0, 1, 1, 1] init_sys =
     Some \<lparr>shared = [''CONCURRENCY_TEST'' \<mapsto> [2 \<mapsto> \<lparr>lotSize = 6, price = 2\<rparr>]],
           mutex = None, pcs = (\<lambda>i. Waiting)(2 := Returned, 0 := Returned, 1 := Returned)\<rparr> \<and>
   joined 3 \<lparr>shared = [''CONCURRENCY_TEST'' \<mapsto> [2 \<mapsto> \<lparr>lotSize = 6, price = 2\<rparr>]],
           mutex = None, pcs = (\<lambda>i. Waiting)(2 := Returned, 0 := Returned, 1 := Returned)\<rparr> \<and>
   length [2, 2, 2, 0, 0, 0, 1, 1, 1 :: nat] = 3 * 3 \<and>
   (3::nat) \<le> 65535 \<and>
   (\<exists>q. shared \<lparr>shared = [''CONCURRENCY_TEST'' \<mapsto> [2 \<mapsto> \<lparr>lotSize = 6, price = 2\<rparr>]],
           mutex = None, pcs = (\<lambda>i. Waiting)(2 := Returned, 0 := Returned, 1 := Returned)\<rparr> =
          [''CONCURRENCY_TEST'' \<mapsto> [2 \<mapsto> \<lparr>lotSize = q, price = 2\<rparr>]] \<and>
        sint q = 6) \<and>
   exec ''CONCURRENCY_TEST'' 2 3 [2, 2, 2, 0] init_sys =
     Some \<lparr>shared = [''CONCURRENCY_TEST'' \<mapsto> [2 \<mapsto> \<lparr>lotSize = 3, price = 2\<rparr>]],
           mutex = Some 0, pcs = (\<lambda>i. Waiting)(2 := Returned, 0 := Searching)\<rparr> \<and>
   \<not> joined 3 \<lparr>shared = [''CONCURRENCY_TEST'' \<mapsto> [2 \<mapsto> \<lparr>lotSize = 3, price = 2\<rparr>]],
           mutex = Some 0, pcs = (\<lambda>i. Waiting)(2 := Returned, 0 := Searching)\<rparr> \<and>
   (\<exists>i. thread_step ''CONCURRENCY_TEST'' 2 3 i
      \<lparr>shared = [''CONCURRENCY_TEST'' \<mapsto> [2 \<mapsto> \<lparr>lotSize = 3, price = 2\<rparr>]],
       mutex = Some 0, pcs = (\<lambda>i. Waiting)(2 := Returned, 0 := Searching)\<rparr> \<noteq> None)"
proof -
  let ?final = "\<lparr>shared = [''CONCURRENCY_TEST'' \<mapsto> [2 \<mapsto> \<lparr>lotSize = 6, price = 2\<rparr>]],
      mutex = None, pcs = (\<lambda>i. Waiting)(2 := Returned, 0 := Returned, 1 := Returned)\<rparr>"
  let ?partial = "\<lparr>shared = [''CONCURRENCY_TEST'' \<mapsto> [2 \<mapsto> \<lparr>lotSize = 3, price = 2\<rparr>]],
      mutex = Some 0, pcs = (\<lambda>i. Waiting)(2 := Returned, 0 := Searching)\<rparr>"
  have n: "(1::nat) \<le> 3"
    by simp
  note complete = concurrent_inserts_sum [OF n exec_complete_3]
  note partial = concurrent_inserts_sum [OF n exec_partial_3]
  have len: "length [2, 2, 2, 0, 0, 0, 1, 1, 1 :: nat] = 3 * 3"
    by simp
  from complete len have all: "joined 3 ?final"
    by blast
  from partial have some: "\<not> joined 3 ?partial"
    by simp
  from partial some
  have enabled: "\<exists>i. thread_step ''CONCURRENCY_TEST'' 2 3 i ?partial \<noteq> None"
    by blast
  have small: "(3::nat) \<le> 65535"
    by simp
  from complete all small obtain q where
    "shared ?final = [''CONCURRENCY_TEST'' \<mapsto> [2 \<mapsto> \<lparr>lotSize = q, price = 2\<rparr>]]" and
    "sint q = int (3 * (3 + 1) div 2)"
    by blast
  then have six: "\<exists>q. shared ?final = [''CONCURRENCY_TEST'' \<mapsto> [2 \<mapsto> \<lparr>lotSize = q, price = 2\<rparr>]] \<and>
      sint q = 6"
    by (intro exI [of _ q]) simp
  from n exec_complete_3 all len small six exec_partial_3 some enabled show ?thesis
    by - (intro conjI, assumption+)
qed

text \<open>
  With 65536 threads the sum \<open>65536 \<cdot> 65537 / 2 = 2147516416\<close> is beyond the largest
  \<^verbatim>\<open>int\<close>: when the threads of the test (price 2) run one after the other in the order
  \<open>0, 1, \<dots>, 65535\<close>, the test reads \<open>-2147450880\<close> from the cell.
\<close>

theorem concurrent_inserts_sum_counterexample:
  "testConcurrentAccess_quantity ''CONCURRENCY_TEST'' 2 65536 (serial_trace [0..<65536]) =
     Some (- 2147450880) \<and>
   int (65536 * (65536 + 1) div 2) = 2147516416 \<and>
   (- 2147450880 :: int) \<noteq> 2147516416"
proof -
  have sched: "schedule 65536 [0..<65536]"
    by (simp add: schedule_def del: upt_rec_numeral)
  have "(65536 * (65536 + 1) div 2 :: nat) = 2147516416"
    by simp
  with quantity_serial [OF _ sched, where symbol = "''CONCURRENCY_TEST''" and p = 2]
  have "testConcurrentAccess_quantity ''CONCURRENCY_TEST'' 2 65536 (serial_trace [0..<65536]) =
      Some (sint (of_nat 2147516416 :: 32 word))"
    by (simp del: upt_rec_numeral)
  then show ?thesis
    by (simp del: upt_rec_numeral)
qed

section \<open>Outcomes of the operations\<close>

lemma insert_call_returns: "insert_call symbol ord m = Inr ((), insert_chm symbol ord m)"
  by (simp add: insert_call_def insert_chm_def Let_def split: option.splits)

lemma insert_leaves_no_placeholder: "insert_chm symbol ord m symbol \<noteq> Some Map.empty"
proof
  assume "insert_chm symbol ord m symbol = Some Map.empty"
  then have "((subscript m symbol Map.empty)(price ord \<mapsto>
        (case subscript m symbol Map.empty (price ord) of
           None \<Rightarrow> \<lparr>lotSize = lotSize ord, price = price ord\<rparr>
         | Some cell \<Rightarrow> cell\<lparr>lotSize := lotSize cell + lotSize ord\<rparr>))) (price ord) = None"
    by (simp only: insert_chm_same option.inject)
  then show False
    by simp
qed

lemma insert_cells_frame:
  assumes "p' \<noteq> price ord"
  shows "(symbol, p', c) \<in> cells (insert_chm symbol ord m) \<longleftrightarrow> (symbol, p', c) \<in> cells m"
  using assms by (auto simp: cells_iff insert_chm_same subscript_def split: option.splits)

text \<open>
  The defensive check of \<^verbatim>\<open>testRemove\<close> holds on every map, and a lookup with \<^verbatim>\<open>at\<close> of
  a removed symbol is the failure that the operations themselves never produce.
\<close>

lemma testRemove_passes: "testRemove m = Inr (True, remove_chm ''TEST'' m)"
  by (simp add: testRemove_def insert_call_returns remove_call_def remove_chm_def
      insert_chm_def Let_def split: option.splits)

lemma at_removed_fails: "um_at (remove_chm symbol m) symbol = Inl OutOfRange"
  by (simp add: um_at_def remove_chm_def)

lemma run_threads_no_placeholder:
  "no_empty_entry m \<Longrightarrow> no_empty_entry (testConcurrentAccess_run symbol p sched m)"
  by (induction sched arbitrary: m)
    (simp_all add: testConcurrentAccess_run_def thread_insert_def no_empty_entry_insert)

lemma mutex_free_complete_calls:
  assumes "exec symbol p n trace init_sys = Some s" and "mutex s = None"
  shows "(\<exists>sched. distinct sched \<and> set sched \<subseteq> {0..<n} \<and>
            shared s = testConcurrentAccess_run symbol p sched Map.empty) \<and>
         no_empty_entry (shared s)"
proof -
  have "lock_inv symbol p n s"
    using lock_inv_init assms(1) by (rule lock_inv_exec)
  from lock_inv_free [OF this assms(2)] obtain sched where
    dist: "distinct sched" and
    returned: "set sched = {k. k < n \<and> pcs s k = Returned}" and
    sh: "shared s = testConcurrentAccess_run symbol p sched Map.empty"
    by blast
  have "set sched \<subseteq> {0..<n}"
    unfolding returned by auto
  moreover have "no_empty_entry (shared s)"
    unfolding sh by (rule run_threads_no_placeholder) (simp add: no_empty_entry_def)
  ultimately show ?thesis
    using dist sh by blast
qed

text \<open>
  Claim C5. Removing a symbol that has no entry returns normally and leaves the map as
  it is, and with it every other symbol's prices and quantities and the whole
  enumeration, in which that symbol has no line. More generally every call of
  \<^verbatim>\<open>insert\<close>, \<^verbatim>\<open>remove\<close> and \<^verbatim>\<open>display\<close>, on every map and with every argument,
  returns (its outcome is never a failure) and has its whole effect:
  \<^item> \<^verbatim>\<open>remove\<close> leaves the symbol without entry and every other symbol as it was;
  \<^item> \<^verbatim>\<open>insert\<close> leaves the order's quantity in the cell of its pair, added to the
    quantity that was there, leaves every other cell and symbol as it was, and never
    leaves the symbol with the empty entry that \<^verbatim>\<open>map_[symbol]\<close> creates on the way;
  \<^item> \<^verbatim>\<open>display\<close> returns the lines and leaves the map as it was.
  Among concurrent inserts, whenever no thread owns the mutex the map is the result of
  complete calls of \<^verbatim>\<open>insert\<close>, with no empty entry: the state between the statements
  of a call exists only while the caller owns the mutex.
\<close>

theorem operations_commit_or_noop:
  "(m symbol = None \<longrightarrow>
      remove_call symbol m = Inr ((), m) \<and> remove_chm symbol m = m \<and>
      display_chm (remove_chm symbol m) = display_chm m \<and> (symbol, l) \<notin> display_chm m) \<and>
   remove_call symbol m = Inr ((), remove_chm symbol m) \<and>
   remove_chm symbol m symbol = None \<and>
   (s \<noteq> symbol \<longrightarrow> remove_chm symbol m s = m s) \<and>
   insert_call symbol ord m = Inr ((), insert_chm symbol ord m) \<and>
   quantity_at (insert_chm symbol ord m) symbol (price ord) =
     Some (case quantity_at m symbol (price ord) of
             None \<Rightarrow> lotSize ord | Some q \<Rightarrow> q + lotSize ord) \<and>
   (s \<noteq> symbol \<longrightarrow> insert_chm symbol ord m s = m s) \<and>
   (p' \<noteq> price ord \<longrightarrow>
      ((symbol, p', c) \<in> cells (insert_chm symbol ord m) \<longleftrightarrow> (symbol, p', c) \<in> cells m)) \<and>
   insert_chm symbol ord m symbol \<noteq> Some Map.empty \<and>
   display_call m = Inr (display_chm m, m) \<and>
   (exec symbol' p n trace init_sys = Some st \<and> mutex st = None \<longrightarrow>
      (\<exists>sched. distinct sched \<and> set sched \<subseteq> {0..<n} \<and>
         shared st = testConcurrentAccess_run symbol' p sched Map.empty) \<and>
      shared st k \<noteq> Some Map.empty)"
proof (intro conjI impI)
  assume absent: "m symbol = None"
  then show same: "remove_chm symbol m = m"
    by (auto simp: remove_chm_def)
  then show "remove_call symbol m = Inr ((), m)"
    by (simp add: remove_call_def remove_chm_def)
  from same show "display_chm (remove_chm symbol m) = display_chm m"
    by simp
  from absent show "(symbol, l) \<notin> display_chm m"
    by (simp add: display_chm_iff)
next
  show "remove_call symbol m = Inr ((), remove_chm symbol m)"
    by (simp add: remove_call_def remove_chm_def)
  show "remove_chm symbol m symbol = None"
    by (simp add: remove_chm_def)
  show "remove_chm symbol m s = m s" if "s \<noteq> symbol"
    using that by (simp add: remove_chm_def)
  show "insert_call symbol ord m = Inr ((), insert_chm symbol ord m)"
    by (rule insert_call_returns)
  show "quantity_at (insert_chm symbol ord m) symbol (price ord) =
     Some (case quantity_at m symbol (price ord) of
             None \<Rightarrow> lotSize ord | Some q \<Rightarrow> q + lotSize ord)"
    by (simp add: quantity_at_insert)
  show "insert_chm symbol ord m s = m s" if "s \<noteq> symbol"
    using that by (rule insert_chm_other)
  show "(symbol, p', c) \<in> cells (insert_chm symbol ord m) \<longleftrightarrow> (symbol, p', c) \<in> cells m"
    if "p' \<noteq> price ord"
    using that by (rule insert_cells_frame)
  show "insert_chm symbol ord m symbol \<noteq> Some Map.empty"
    by (rule insert_leaves_no_placeholder)
  show "display_call m = Inr (display_chm m, m)"
    by (simp add: display_call_def)
next
  assume run: "exec symbol' p n trace init_sys = Some st \<and> mutex st = None"
  then have "exec symbol' p n trace init_sys = Some st" and "mutex st = None"
    by simp_all
  then have complete: "(\<exists>sched. distinct sched \<and> set sched \<subseteq> {0..<n} \<and>
            shared st = testConcurrentAccess_run symbol' p sched Map.empty) \<and>
         no_empty_entry (shared st)"
    by (rule mutex_free_complete_calls)
  then show "\<exists>sched. distinct sched \<and> set sched \<subseteq> {0..<n} \<and>
         shared st = testConcurrentAccess_run symbol' p sched Map.empty"
    by (rule conjunct1)
  from complete show "shared st k \<noteq> Some Map.empty"
    by (simp add: no_empty_entry_def)
qed

lemma exec_one_of_3:
  "exec ''CONCURRENCY_TEST'' 2 3 [2, 2, 2] init_sys =
     Some \<lparr>shared = [''CONCURRENCY_TEST'' \<mapsto> [2 \<mapsto> \<lparr>lotSize = 3, price = 2\<rparr>]],
           mutex = None, pcs = (\<lambda>i. Waiting)(2 := Returned)\<rparr>"
  by (simp add: thread_step_def init_sys_def Let_def Order_new_def subscript_def fetch_add_def
      move_assign_def Order_default_def)

theorem operations_commit_or_noop_witness:
  "([''B'' \<mapsto> [2 \<mapsto> Order_new 10 2]] :: string chm) ''A'' = None \<and>
   remove_call ''A'' [''B'' \<mapsto> [2 \<mapsto> Order_new 10 2]] =
     Inr ((), [''B'' \<mapsto> [2 \<mapsto> Order_new 10 2]]) \<and>
   ''B'' \<noteq> ''A'' \<and>
   remove_chm ''A'' [''B'' \<mapsto> [2 \<mapsto> Order_new 10 2]] ''B'' = Some [2 \<mapsto> Order_new 10 2] \<and>
   insert_chm ''A'' (Order_new 5 3) [''B'' \<mapsto> [2 \<mapsto> Order_new 10 2]] ''B'' =
     Some [2 \<mapsto> Order_new 10 2] \<and>
   remove_call ''B'' [''B'' \<mapsto> [2 \<mapsto> Order_new 10 2]] =
     Inr ((), remove_chm ''B'' [''B'' \<mapsto> [2 \<mapsto> Order_new 10 2]]) \<and>
   remove_chm ''B'' [''B'' \<mapsto> [2 \<mapsto> Order_new 10 2]] ''B'' = None \<and>
   (2 :: 32 word) \<noteq> price (Order_new 5 3) \<and>
   ((''B'', 2, Order_new 10 2) \<in> cells (insert_chm ''B'' (Order_new 5 3) [''B'' \<mapsto> [2 \<mapsto> Order_new 10 2]])
      \<longleftrightarrow> (''B'', 2, Order_new 10 2) \<in> cells [''B'' \<mapsto> [2 \<mapsto> Order_new 10 2]]) \<and>
   (''B'', 2, Order_new 10 2) \<in> cells [''B'' \<mapsto> [2 \<mapsto> Order_new 10 2]] \<and>
   exec ''CONCURRENCY_TEST'' 2 3 [2, 2, 2] init_sys =
     Some \<lparr>shared = [''CONCURRENCY_TEST'' \<mapsto> [2 \<mapsto> \<lparr>lotSize = 3, price = 2\<rparr>]],
           mutex = None, pcs = (\<lambda>i. Waiting)(2 := Returned)\<rparr> \<and>
   mutex \<lparr>shared = [''CONCURRENCY_TEST'' \<mapsto> [2 \<mapsto> \<lparr>lotSize = 3, price = 2\<rparr>]],
           mutex = None, pcs = (\<lambda>i. Waiting)(2 := Returned)\<rparr> = None \<and>
   shared \<lparr>shared = [''CONCURRENCY_TEST'' \<mapsto> [2 \<mapsto> \<lparr>lotSize = 3, price = 2\<rparr>]],
           mutex = None, pcs = (\<lambda>i. Waiting)(2 := Returned)\<rparr> ''CONCURRENCY_TEST'' \<noteq>
     Some Map.empty"
proof -
  let ?m = "[''B'' \<mapsto> [2 \<mapsto> Order_new 10 2]] :: string chm"
  let ?st = "\<lparr>shared = [''CONCURRENCY_TEST'' \<mapsto> [2 \<mapsto> \<lparr>lotSize = 3, price = 2\<rparr>]],
      mutex = None, pcs = (\<lambda>i. Waiting)(2 := Returned)\<rparr>"
  have absent: "?m ''A'' = None" and other: "''B'' \<noteq> ''A''"
    and price: "(2 :: 32 word) \<noteq> price (Order_new 5 3)"
    and free: "mutex ?st = None"
    and cell: "(''B'', 2, Order_new 10 2) \<in> cells ?m"
    by (simp_all add: Order_new_def cells_iff)
  note on_absent = operations_commit_or_noop [where m = ?m and symbol = "''A''" and s = "''B''"
      and l = l
      and ord = "Order_new 5 3" and symbol' = "''CONCURRENCY_TEST''" and p = 2 and n = 3
      and trace = "[2, 2, 2]" and st = ?st and k = "''CONCURRENCY_TEST''"]
  note on_present = operations_commit_or_noop [where m = ?m and symbol = "''B''"
      and ord = "Order_new 5 3" and p' = 2 and c = "Order_new 10 2"]
  from on_absent [THEN conjunct1, THEN mp, OF absent]
  have 1: "remove_call ''A'' ?m = Inr ((), ?m)"
    by (rule conjunct1)
  from on_absent [THEN conjunct2, THEN conjunct2, THEN conjunct2, THEN conjunct1, THEN mp, OF other]
  have 2: "remove_chm ''A'' ?m ''B'' = Some [2 \<mapsto> Order_new 10 2]"
    by simp
  from on_absent [THEN conjunct2, THEN conjunct2, THEN conjunct2, THEN conjunct2, THEN conjunct2, THEN conjunct2, THEN conjunct1, THEN mp, OF other]
  have 3: "insert_chm ''A'' (Order_new 5 3) ?m ''B'' = Some [2 \<mapsto> Order_new 10 2]"
    by simp
  note 4 = on_present [THEN conjunct2, THEN conjunct1]
  note 5 = on_present [THEN conjunct2, THEN conjunct2, THEN conjunct1]
  note 6 = on_present [THEN conjunct2, THEN conjunct2, THEN conjunct2, THEN conjunct2, THEN conjunct2, THEN conjunct2, THEN conjunct2, THEN conjunct1, THEN mp, OF price]
  have both: "exec ''CONCURRENCY_TEST'' 2 3 [2, 2, 2] init_sys = Some ?st \<and> mutex ?st = None"
    using exec_one_of_3 free by (rule conjI)
  note 7 = on_absent [THEN conjunct2, THEN conjunct2, THEN conjunct2, THEN conjunct2, THEN conjunct2, THEN conjunct2, THEN conjunct2, THEN conjunct2, THEN conjunct2, THEN conjunct2, THEN mp, OF both, THEN conjunct2]
  from absent 1 other 2 3 4 5 price 6 cell exec_one_of_3 free 7 show ?thesis
    by - (intro conjI, assumption+)
qed

end
